(* ===== verification/Prelude.thy ===== *)
theory Prelude
  imports Main "HOL-Library.Word"
begin

text \<open>
  Shared vocabulary of the development: machine words of the kernel's LP64 data model, the
  faults a piece of kernel code can run into, the result type that carries them, and the
  explicit store in which the modules keep their list nodes.

  A C function that can dereference a null or freed pointer, run over the end of a buffer, spin
  on a lock that is never released or hit a \<open>BUG_ON\<close> returns a value of type \<open>'a kres\<close>: \<open>Inl\<close>
  the fault, or \<open>Inr\<close> the result.  An error code the C function itself returns is an ordinary
  result and never a fault.
\<close>

section \<open>Machine words and addresses\<close>

type_synonym u32 = "32 word"
type_synonym u64 = "64 word"
type_synonym addr = nat

named_theorems kres_simps \<open>evaluation of the fault-carrying result type\<close>
named_theorems store_simps \<open>lists of nodes and the store that holds them\<close>

section \<open>Faults and results\<close>

datatype fault =
    NullDeref      \<comment> \<open>a null pointer is dereferenced\<close>
  | UseAfterFree   \<comment> \<open>a pointer to memory that is not allocated is dereferenced\<close>
  | OutOfBounds    \<comment> \<open>an access past the end of a buffer\<close>
  | ErrPtrDeref    \<comment> \<open>an error pointer (\<open>ERR_PTR\<close>) is dereferenced\<close>
  | BugOn          \<comment> \<open>a \<open>BUG_ON\<close> assertion fires\<close>
  | Deadlock       \<comment> \<open>a spin lock that is already held is taken again\<close>

type_synonym 'a kres = "fault + 'a"

definition bindK :: "'a kres \<Rightarrow> ('a \<Rightarrow> 'b kres) \<Rightarrow> 'b kres" where
  "bindK r f = (case r of Inl e \<Rightarrow> Inl e | Inr x \<Rightarrow> f x)"

lemma bindK_Inl [simp]: "bindK (Inl e) f = Inl e"
  by (simp add: bindK_def)

lemma bindK_Inr [simp]: "bindK (Inr x) f = f x"
  by (simp add: bindK_def)

lemma bindK_eq_Inr [kres_simps]: "bindK r f = Inr y \<longleftrightarrow> (\<exists>x. r = Inr x \<and> f x = Inr y)"
  by (cases r) simp_all

lemma bindK_assoc: "bindK (bindK r f) g = bindK r (\<lambda>x. bindK (f x) g)"
  by (cases r) simp_all

lemma bindK_cong: "r = r' \<Longrightarrow> (\<And>x. r' = Inr x \<Longrightarrow> f x = g x) \<Longrightarrow> bindK r f = bindK r' g"
  by (cases r') simp_all

definition mapK :: "('a \<Rightarrow> 'b) \<Rightarrow> 'a kres \<Rightarrow> 'b kres" where
  "mapK f r = bindK r (\<lambda>x. Inr (f x))"

lemma mapK_simps [simp]: "mapK f (Inl e) = Inl e" "mapK f (Inr x) = Inr (f x)"
  by (simp_all add: mapK_def)

lemma bindK_mapK [simp]: "bindK (mapK f r) g = bindK r (\<lambda>x. g (f x))"
  by (cases r) simp_all

lemma mapK_bindK [simp]: "mapK f (bindK r g) = bindK r (\<lambda>x. mapK f (g x))"
  by (cases r) simp_all

lemma mapK_eq_Inr [kres_simps]: "mapK f r = Inr y \<longleftrightarrow> (\<exists>x. r = Inr x \<and> y = f x)"
  by (cases r) auto

definition nonnull :: "'a option \<Rightarrow> 'a kres" where
  "nonnull p = (case p of None \<Rightarrow> Inl NullDeref | Some a \<Rightarrow> Inr a)"

lemma nonnull_simps [simp]:
  "nonnull None = Inl NullDeref"
  "nonnull (Some a) = Inr a"
  by (simp_all add: nonnull_def)

lemma nonnull_eq_Inr [kres_simps]: "nonnull p = Inr a \<longleftrightarrow> p = Some a"
  by (cases p) simp_all

definition deref :: "(addr \<rightharpoonup> 'n) \<Rightarrow> addr \<Rightarrow> 'n kres" where
  "deref h a = (case h a of None \<Rightarrow> Inl UseAfterFree | Some n \<Rightarrow> Inr n)"

lemma deref_Some [kres_simps]: "h a = Some n \<Longrightarrow> deref h a = Inr n"
  by (simp add: deref_def)

lemma deref_eq_Inr [kres_simps]: "deref h a = Inr n \<longleftrightarrow> h a = Some n"
  by (simp add: deref_def split: option.splits)

lemma deref_upd_same [simp]: "deref (h(a \<mapsto> n)) a = Inr n"
  by (simp add: deref_def)

lemma deref_map: "deref (\<lambda>b. map_option f (h b)) a = mapK f (deref h a)"
  by (simp add: deref_def split: option.splits)

definition ok :: "'a kres \<Rightarrow> bool" where
  "ok r = (case r of Inl _ \<Rightarrow> False | Inr _ \<Rightarrow> True)"

lemma ok_simps [simp]: "\<not> ok (Inl e)" "ok (Inr x)"
  by (simp_all add: ok_def)

lemma okE: "ok r \<Longrightarrow> (\<And>x. r = Inr x \<Longrightarrow> P) \<Longrightarrow> P"
  by (cases r) simp_all

section \<open>Error codes\<close>

text \<open>The error codes the sources return, without their sign.\<close>

datatype errno = EINVAL | ERANGE | ENOENT | ENOMEM | EACCES | EOPNOTSUPP

section \<open>Words read as numbers\<close>

lemma unat_le_mono: "x \<le> y \<longleftrightarrow> unat x \<le> unat (y :: 'a :: len word)"
  by (rule word_le_nat_alt)

lemma unat_mult_fits:
  "unat (x :: 'a :: len word) * unat y < 2 ^ LENGTH('a) \<Longrightarrow> unat (x * y) = unat x * unat y"
  by (simp add: unat_word_ariths)

lemma unat_add_fits:
  "unat (x :: 'a :: len word) + unat y < 2 ^ LENGTH('a) \<Longrightarrow> unat (x + y) = unat x + unat y"
  by (simp add: unat_word_ariths)

lemma unat_ucast_64 [simp]: "unat (ucast (x :: u32) :: u64) = unat x"
  by (simp add: unsigned_ucast_eq take_bit_nat_eq_self order_less_le_trans [OF unsigned_less])

section \<open>Lists\<close>

lemma remove1_append_last [simp]: "a \<notin> set xs \<Longrightarrow> remove1 a (xs @ [a]) = xs"
  by (simp add: remove1_append)

lemma set_remove1_distinct: "distinct xs \<Longrightarrow> set (remove1 a xs) = set xs - {a}"
  by simp

lemma sum_list_remove1:
  fixes f :: "'a \<Rightarrow> 'b :: ab_group_add"
  shows "a \<in> set xs \<Longrightarrow> sum_list (map f (remove1 a xs)) = sum_list (map f xs) - f a"
  by (induction xs) auto

lemma map_upd_notin: "a \<notin> set xs \<Longrightarrow> map (\<lambda>b. f ((h(a := n)) b)) xs = map (\<lambda>b. f (h b)) xs"
  by (induction xs) auto

end
