(* ===== verification/KLib.thy ===== *)
theory KLib
  imports Prelude
begin

text \<open>
  The part of the C and kernel run-time library that the modules and their user programs use on
  text: NUL-terminated strings inside character arrays, \<open>strlen\<close>, \<open>strcmp\<close>, \<open>strncmp\<close>, the
  \<open>%d\<close> and \<open>%lu\<close> conversions of \<open>sprintf\<close>, and \<open>kstrtoint\<close> in base 10.  A signed C \<open>int\<close> is a
  32-bit word read with \<open>sint\<close>; a conversion between \<open>int\<close> and \<open>unsigned int\<close> is then the
  identity on the word.  The main result is the round trip \<open>kstrtoint_dec_int\<close>: whatever \<open>%d\<close>
  prints, \<open>kstrtoint\<close> reads back, with or without a final newline.
\<close>

named_theorems cstr_simps \<open>NUL-terminated strings\<close>

section \<open>Strings in character arrays\<close>

definition NUL :: char where
  "NUL = CHR 0x00"

definition newline :: char where
  "newline = CHR 0x0A"

text \<open>The string that starts at the first byte of an array.\<close>

definition cstring :: "char list \<Rightarrow> string" where
  "cstring buf = takeWhile (\<lambda>c. c \<noteq> NUL) buf"

definition strlen :: "char list \<Rightarrow> nat" where
  "strlen buf = length (cstring buf)"

text \<open>
  \<open>str_at buf i\<close> is the string a library function reads through the pointer \<open>buf + i\<close>; reading on
  past the last byte of the array is a fault.
\<close>

definition str_at :: "char list \<Rightarrow> nat \<Rightarrow> string kres" where
  "str_at buf i = (if i < length buf \<and> NUL \<in> set (drop i buf)
                   then Inr (cstring (drop i buf)) else Inl OutOfBounds)"

definition strcmp_eq :: "string \<Rightarrow> string \<Rightarrow> bool" where
  "strcmp_eq s t = (cstring s = cstring t)"

definition strncmp_eq :: "string \<Rightarrow> string \<Rightarrow> nat \<Rightarrow> bool" where
  "strncmp_eq s t n = (take n (cstring s) = take n (cstring t))"

lemma cstring_id [cstr_simps]: "NUL \<notin> set s \<Longrightarrow> cstring s = s"
  by (auto simp: cstring_def takeWhile_eq_all_conv)

lemma cstring_append_NUL [cstr_simps]: "NUL \<notin> set s \<Longrightarrow> cstring (s @ NUL # t) = s"
  unfolding cstring_def by (subst takeWhile_append2) auto

lemma strlen_append_NUL [cstr_simps]: "NUL \<notin> set s \<Longrightarrow> strlen (s @ NUL # t) = length s"
  by (simp add: strlen_def cstring_append_NUL)

lemma strlen_le_length: "strlen s \<le> length s"
  by (simp add: strlen_def cstring_def length_takeWhile_le)

lemma strlen_snoc_NUL: "strlen (s @ [NUL]) \<le> length s"
  by (induction s) (simp_all add: strlen_def cstring_def)

lemma NUL_notin_cstring [simp]: "NUL \<notin> set (cstring s)"
  by (auto simp: cstring_def dest: set_takeWhileD)

lemma str_at_mid [cstr_simps]:
  "NUL \<notin> set s \<Longrightarrow> str_at (p @ s @ NUL # t) (length p) = Inr s"
  by (simp add: str_at_def cstring_append_NUL)

section \<open>Printing numbers\<close>

definition digit_char :: "nat \<Rightarrow> char" where
  "digit_char d = char_of (48 + d)"

fun dec_nat :: "nat \<Rightarrow> string" where
  "dec_nat n = (if n < 10 then [digit_char n] else dec_nat (n div 10) @ [digit_char (n mod 10)])"

declare dec_nat.simps [simp del]

text \<open>\<open>%d\<close> of a value of type \<open>int\<close>; \<open>%lu\<close> of an \<open>unsigned long\<close> is \<open>dec_nat (unat _)\<close>.\<close>

definition dec_int :: "int \<Rightarrow> string" where
  "dec_int i = (if i < 0 then CHR ''-'' # dec_nat (nat (- i)) else dec_nat (nat i))"

definition fmt_d :: "u32 \<Rightarrow> string" where
  "fmt_d w = dec_int (sint w)"

definition fmt_lu :: "u64 \<Rightarrow> string" where
  "fmt_lu w = dec_nat (unat w)"

section \<open>Reading numbers\<close>

definition is_digit :: "char \<Rightarrow> bool" where
  "is_digit c = (48 \<le> (of_char c :: nat) \<and> (of_char c :: nat) < 58)"

definition digit_val :: "char \<Rightarrow> nat" where
  "digit_val c = of_char c - 48"

definition digits_val :: "string \<Rightarrow> nat" where
  "digits_val s = foldl (\<lambda>acc c. 10 * acc + digit_val c) 0 s"

text \<open>
  \<open>kstrtoint s 10 res\<close>: an optional sign, at least one digit, an optional single newline and the
  end of the string.  The magnitude is accumulated in 64 bits; overflow there is reported before
  trailing text, and the check that the value fits into an \<open>int\<close> comes last.
\<close>

definition kstrtoull :: "string \<Rightarrow> errno + nat" where
  "kstrtoull s = (let ds = takeWhile is_digit s; rest = dropWhile is_digit s in
     if ds = [] then Inl EINVAL
     else if 2 ^ 64 \<le> digits_val ds then Inl ERANGE
     else if rest = [] \<or> rest = [newline] then Inr (digits_val ds)
     else Inl EINVAL)"

definition to_int32 :: "int \<Rightarrow> errno + u32" where
  "to_int32 v = (if - (2 ^ 31) \<le> v \<and> v < 2 ^ 31 then Inr (word_of_int v) else Inl ERANGE)"

definition kstrtoint :: "string \<Rightarrow> errno + u32" where
  "kstrtoint s =
     (case s of
        [] \<Rightarrow> Inl EINVAL
      | c # cs \<Rightarrow>
          if c = CHR ''-'' then
            (case kstrtoull cs of Inl e \<Rightarrow> Inl e | Inr n \<Rightarrow> to_int32 (- int n))
          else
            (case kstrtoull (if c = CHR ''+'' then cs else s) of
               Inl e \<Rightarrow> Inl e | Inr n \<Rightarrow> to_int32 (int n)))"

text \<open>A failed \<open>kstrtoint\<close> leaves the destination as it was.\<close>

definition kstrtoint_into :: "string \<Rightarrow> u32 \<Rightarrow> u32" where
  "kstrtoint_into s old = (case kstrtoint s of Inl _ \<Rightarrow> old | Inr v \<Rightarrow> v)"

section \<open>Round trip between printing and reading\<close>

lemma of_char_digit_char [simp]: "d < 10 \<Longrightarrow> (of_char (digit_char d) :: nat) = 48 + d"
  by (simp add: digit_char_def)

lemma is_digit_digit_char [simp]: "d < 10 \<Longrightarrow> is_digit (digit_char d)"
  by (simp add: is_digit_def)

lemma digit_val_digit_char [simp]: "d < 10 \<Longrightarrow> digit_val (digit_char d) = d"
  by (simp add: digit_val_def)

lemma dec_nat_nonempty [simp]: "dec_nat n \<noteq> []"
  by (subst dec_nat.simps) simp

lemma digits_dec_nat: "c \<in> set (dec_nat n) \<Longrightarrow> is_digit c"
proof (induction n rule: dec_nat.induct)
  case (1 n)
  show ?case
  proof (cases "n < 10")
    case True
    with "1.prems" show ?thesis by (simp add: dec_nat.simps [of n])
  next
    case False
    with "1" show ?thesis by (auto simp: dec_nat.simps [of n])
  qed
qed

lemma digits_val_snoc: "digits_val (s @ [c]) = 10 * digits_val s + digit_val c"
  by (simp add: digits_val_def)

lemma digits_val_dec_nat [simp]: "digits_val (dec_nat n) = n"
proof (induction n rule: dec_nat.induct)
  case (1 n)
  show ?case
  proof (cases "n < 10")
    case True
    then show ?thesis by (simp add: dec_nat.simps [of n] digits_val_def)
  next
    case False
    with "1.IH" show ?thesis by (simp add: dec_nat.simps [of n] digits_val_snoc)
  qed
qed

lemma not_digit_special [simp]:
  "\<not> is_digit newline" "\<not> is_digit NUL" "\<not> is_digit (CHR '','')"
  "\<not> is_digit (CHR ''-'')" "\<not> is_digit (CHR ''+'')" "\<not> is_digit (CHR '' '')"
  by (simp_all add: is_digit_def newline_def NUL_def)

lemma notin_dec_nat: "\<not> is_digit c \<Longrightarrow> c \<notin> set (dec_nat n)"
  using digits_dec_nat by blast

lemma takeWhile_dec_nat: "t = [] \<or> t = [newline] \<Longrightarrow> takeWhile is_digit (dec_nat n @ t) = dec_nat n"
  using digits_dec_nat by (auto simp: takeWhile_append2 takeWhile_eq_all_conv)

lemma dropWhile_dec_nat: "t = [] \<or> t = [newline] \<Longrightarrow> dropWhile is_digit (dec_nat n @ t) = t"
  using digits_dec_nat by (auto simp: dropWhile_append2 dropWhile_eq_Nil_conv)

lemma kstrtoull_dec_nat:
  "n < 2 ^ 64 \<Longrightarrow> t = [] \<or> t = [newline] \<Longrightarrow> kstrtoull (dec_nat n @ t) = Inr n"
  by (simp only: kstrtoull_def Let_def takeWhile_dec_nat dropWhile_dec_nat) auto

lemma dec_nat_hd: "\<exists>c cs. dec_nat n @ t = c # cs \<and> is_digit c"
proof -
  obtain c cs where "dec_nat n = c # cs"
    by (meson dec_nat_nonempty neq_Nil_conv)
  with digits_dec_nat [of c n] show ?thesis by simp
qed

lemma kstrtoint_dec_nat:
  assumes "n < 2 ^ 31" and "t = [] \<or> t = [newline]"
  shows "kstrtoint (dec_nat n @ t) = Inr (word_of_int (int n))"
proof -
  obtain c cs where c: "dec_nat n @ t = c # cs" "is_digit c"
    using dec_nat_hd by blast
  then have "c \<noteq> CHR ''-''" "c \<noteq> CHR ''+''" by auto
  moreover have "kstrtoull (c # cs) = Inr n"
    using kstrtoull_dec_nat [of n t] assms c(1) by simp
  ultimately show ?thesis
    using assms(1) by (simp add: c(1) kstrtoint_def to_int32_def)
qed

theorem kstrtoint_dec_int:
  assumes "t = [] \<or> t = [newline]"
  shows "kstrtoint (fmt_d w @ t) = Inr w"
proof -
  have range: "- (2 ^ 31) \<le> sint w" "sint w < 2 ^ 31"
    using sint_ge [of w] sint_lt [of w] by simp_all
  show ?thesis
  proof (cases "sint w < 0")
    case True
    have "kstrtoull (dec_nat (nat (- sint w)) @ t) = Inr (nat (- sint w))"
      using kstrtoull_dec_nat assms range by simp
    with True range show ?thesis
      by (simp add: fmt_d_def dec_int_def kstrtoint_def to_int32_def)
  next
    case False
    with kstrtoint_dec_nat [of "nat (sint w)" t] assms range show ?thesis
      by (simp add: fmt_d_def dec_int_def)
  qed
qed

lemma notin_dec_int: "\<not> is_digit c \<Longrightarrow> c \<noteq> CHR ''-'' \<Longrightarrow> c \<notin> set (dec_int i)"
  by (auto simp: dec_int_def notin_dec_nat)

lemma notin_fmt_d [simp]:
  "NUL \<notin> set (fmt_d w)" "newline \<notin> set (fmt_d w)" "CHR '','' \<notin> set (fmt_d w)"
  unfolding fmt_d_def
  by (rule notin_dec_int; simp add: NUL_def newline_def is_digit_def)+

lemma dec_int_nonempty [simp]: "dec_int i \<noteq> []"
  by (simp add: dec_int_def)

lemma fmt_d_nonempty [simp]: "fmt_d w \<noteq> []"
  by (simp add: fmt_d_def)

lemma notin_fmt_lu [simp]: "NUL \<notin> set (fmt_lu w)" "newline \<notin> set (fmt_lu w)"
  by (simp_all add: fmt_lu_def notin_dec_nat)

section \<open>Length of printed numbers\<close>

lemma length_dec_nat_le: "n < 10 ^ k \<Longrightarrow> 0 < k \<Longrightarrow> length (dec_nat n) \<le> k"
proof (induction k arbitrary: n)
  case 0
  then show ?case by simp
next
  case (Suc k)
  show ?case
  proof (cases "n < 10")
    case True
    then show ?thesis by (simp add: dec_nat.simps [of n])
  next
    case False
    with Suc.prems have "0 < k" by (cases k) simp_all
    from False Suc.prems have "n div 10 < 10 ^ k" by simp
    with Suc.IH \<open>0 < k\<close> False show ?thesis by (simp add: dec_nat.simps [of n])
  qed
qed

lemma length_fmt_d: "length (fmt_d w) \<le> 11"
proof -
  have "- (2 ^ 31) \<le> sint w" "sint w < 2 ^ 31"
    using sint_ge [of w] sint_lt [of w] by simp_all
  then have "nat (- sint w) < 10 ^ 10" "nat (sint w) < 10 ^ 10" by simp_all
  then show ?thesis
    using length_dec_nat_le [of "nat (- sint w)" 10] length_dec_nat_le [of "nat (sint w)" 10]
    by (simp add: fmt_d_def dec_int_def)
qed

lemma length_fmt_lu: "length (fmt_lu w) \<le> 20"
proof -
  have "unat w < 2 ^ LENGTH(64)" by (rule unsigned_less)
  then have "unat w < 10 ^ 20" by simp
  then show ?thesis by (simp add: fmt_lu_def length_dec_nat_le)
qed

end
