(* ===== verification/KList.thy ===== *)
theory KList
  imports Prelude
begin

text \<open>
  The kernel's intrusive lists as the modules use them.  A \<open>struct list_head\<close> is the list of the
  addresses of the nodes linked into it, and the nodes themselves live in a store, a map from
  addresses to structs: \<open>kmalloc\<close> and \<open>kmem_cache_alloc\<close> add an address to its domain, \<open>kfree\<close>
  and \<open>kmem_cache_free\<close> take it away, and a node reached through an address outside the domain is
  a use after free.

  The locale \<open>registry\<close> is the contract the process lists of the modules have in common: a store
  of structs, each with a key (its pid), that are added at the tail and looked up by a linear
  scan.  The scan finds the oldest node with the pid, a new node never hides an older one, and
  adding and then deleting a node restores the table.
\<close>

section \<open>Operations of linux/list.h\<close>

definition list_add_tail :: "addr \<Rightarrow> addr list \<Rightarrow> addr list" where
  "list_add_tail a xs = xs @ [a]"

definition list_del :: "addr \<Rightarrow> addr list \<Rightarrow> addr list" where
  "list_del a xs = remove1 a xs"

definition list_empty :: "addr list \<Rightarrow> bool" where
  "list_empty xs = (xs = [])"

text \<open>\<open>list_for_each_entry\<close> with a body that returns the first node satisfying a test.\<close>

fun find_entry :: "(addr \<rightharpoonup> 'n) \<Rightarrow> ('n \<Rightarrow> bool) \<Rightarrow> addr list \<Rightarrow> addr option kres" where
  "find_entry h P [] = Inr None"
| "find_entry h P (a # as) =
     bindK (deref h a) (\<lambda>n. if P n then Inr (Some a) else find_entry h P as)"

text \<open>The nodes linked into the list are exactly the allocated ones, each linked once.\<close>

definition klist_inv :: "addr list \<Rightarrow> (addr \<rightharpoonup> 'n) \<Rightarrow> bool" where
  "klist_inv xs h = (distinct xs \<and> dom h = set xs)"

section \<open>Facts about lists with their store\<close>

lemma klist_inv_empty [simp]: "klist_inv [] Map.empty"
  by (simp add: klist_inv_def)

lemma klist_inv_add [store_simps]:
  "klist_inv xs h \<Longrightarrow> h a = None \<Longrightarrow> klist_inv (list_add_tail a xs) (h(a \<mapsto> n))"
  by (auto simp: klist_inv_def list_add_tail_def)

lemma klist_inv_del [store_simps]:
  "klist_inv xs h \<Longrightarrow> klist_inv (list_del a xs) (h(a := None))"
  by (auto simp: klist_inv_def list_del_def)

lemma klist_inv_upd [store_simps]:
  "klist_inv xs h \<Longrightarrow> a \<in> set xs \<Longrightarrow> klist_inv xs (h(a \<mapsto> n))"
  by (auto simp: klist_inv_def)

lemma klist_inv_in: "klist_inv xs h \<Longrightarrow> a \<in> set xs \<longleftrightarrow> (\<exists>n. h a = Some n)"
  by (auto simp: klist_inv_def)

lemma find_entry_ok:
  "set xs \<subseteq> dom h \<Longrightarrow> find_entry h P xs = Inr (find (\<lambda>a. P (the (h a))) xs)"
  by (induction xs) (auto simp: deref_def)

lemma find_entry_key:
  "set xs \<subseteq> dom h \<Longrightarrow>
   find_entry h (\<lambda>n. f n = k) xs = Inr (find (\<lambda>a. map_option f (h a) = Some k) xs)"
  by (induction xs) (auto simp: deref_def)

lemma find_entry_SomeD:
  "find_entry h P xs = Inr (Some a) \<Longrightarrow> a \<in> set xs \<and> (\<exists>n. h a = Some n \<and> P n)"
  by (induction xs) (auto simp: kres_simps split: if_splits)

lemma find_entry_NoneD:
  "find_entry h P xs = Inr None \<Longrightarrow> a \<in> set xs \<Longrightarrow> h a = Some n \<Longrightarrow> \<not> P n"
  by (induction xs) (auto simp: kres_simps split: if_splits)

lemma find_append: "find P (xs @ ys) = (case find P xs of None \<Rightarrow> find P ys | Some a \<Rightarrow> Some a)"
  by (induction xs) auto

lemma find_cong_set: "(\<And>a. a \<in> set xs \<Longrightarrow> P a = Q a) \<Longrightarrow> find P xs = find Q xs"
  by (induction xs) auto

lemma find_remove1: "\<not> P a \<Longrightarrow> find P (remove1 a xs) = find P xs"
  by (induction xs) auto

section \<open>The contract of a process registry\<close>

locale registry =
  fixes invar :: "'s \<Rightarrow> bool"
    and nodes :: "'s \<Rightarrow> addr list"
    and key_of :: "'s \<Rightarrow> addr \<Rightarrow> 'k option"
    and lookup :: "'s \<Rightarrow> 'k \<Rightarrow> addr option kres"
    and add :: "addr \<Rightarrow> 'k \<Rightarrow> 's \<Rightarrow> 's"
    and del :: "addr \<Rightarrow> 's \<Rightarrow> 's"
  assumes keys: "invar s \<Longrightarrow> (a \<in> set (nodes s)) = (key_of s a \<noteq> None)"
    and distinct_nodes: "invar s \<Longrightarrow> distinct (nodes s)"
    and lookup_scan: "invar s \<Longrightarrow> lookup s k = Inr (find (\<lambda>a. key_of s a = Some k) (nodes s))"
    and invar_add: "invar s \<Longrightarrow> key_of s a = None \<Longrightarrow> invar (add a k s)"
    and nodes_add: "invar s \<Longrightarrow> key_of s a = None \<Longrightarrow> nodes (add a k s) = nodes s @ [a]"
    and key_add: "invar s \<Longrightarrow> key_of s a = None \<Longrightarrow> key_of (add a k s) = (key_of s)(a := Some k)"
    and invar_del: "invar s \<Longrightarrow> invar (del a s)"
    and nodes_del: "invar s \<Longrightarrow> nodes (del a s) = remove1 a (nodes s)"
    and key_del: "invar s \<Longrightarrow> key_of (del a s) = (key_of s)(a := None)"
begin

definition registered :: "'s \<Rightarrow> 'k \<Rightarrow> bool" where
  "registered s k = (\<exists>a \<in> set (nodes s). key_of s a = Some k)"

lemma lookup_none: "invar s \<Longrightarrow> lookup s k = Inr None \<longleftrightarrow> \<not> registered s k"
  by (auto simp: lookup_scan registered_def find_None_iff)

lemma lookup_some: "invar s \<Longrightarrow> lookup s k = Inr (Some a) \<Longrightarrow> a \<in> set (nodes s) \<and> key_of s a = Some k"
  by (auto simp: lookup_scan find_Some_iff)

lemma lookup_add:
  assumes "invar s" and fresh: "key_of s a = None"
  shows "lookup (add a k s) j =
    (if registered s j then lookup s j else if j = k then Inr (Some a) else Inr None)"
proof -
  have a: "a \<notin> set (nodes s)" using assms by (simp add: keys)
  have old: "find (\<lambda>b. key_of (add a k s) b = Some j) (nodes s) =
      find (\<lambda>b. key_of s b = Some j) (nodes s)"
    using a assms by (intro find_cong_set) (auto simp: key_add)
  show ?thesis
    using assms old
    by (auto simp: lookup_scan invar_add nodes_add find_append key_add registered_def
        find_None_iff split: option.split)
      (auto simp: find_None_iff find_Some_iff key_add)
qed

lemma registered_add: "invar s \<Longrightarrow> key_of s a = None \<Longrightarrow>
    registered (add a k s) j \<longleftrightarrow> registered s j \<or> j = k"
  using keys [of s a] by (auto simp: registered_def nodes_add key_add)

lemma registered_del: "invar s \<Longrightarrow> registered (del a s) j \<longleftrightarrow>
    (\<exists>b \<in> set (nodes s). b \<noteq> a \<and> key_of s b = Some j)"
  by (auto simp: registered_def nodes_del key_del distinct_nodes)

lemma add_del_nodes: "invar s \<Longrightarrow> key_of s a = None \<Longrightarrow>
    nodes (del a (add a k s)) = nodes s \<and> key_of (del a (add a k s)) = key_of s"
  using keys [of s a] by (auto simp: nodes_del invar_add nodes_add key_del key_add remove1_append)

lemma lookup_del_other:
  assumes "invar s" and "lookup s j = Inr (Some b)" and "a \<noteq> b"
    and "key_of s a \<noteq> Some j"
  shows "lookup (del a s) j = Inr (Some b)"
proof -
  have "find (\<lambda>c. key_of s c = Some j) (remove1 a (nodes s)) =
      find (\<lambda>c. key_of s c = Some j) (nodes s)"
    using assms(4) by (simp add: find_remove1)
  moreover have "find (\<lambda>c. key_of (del a s) c = Some j) (remove1 a (nodes s)) =
      find (\<lambda>c. key_of s c = Some j) (remove1 a (nodes s))"
    using assms(1) distinct_nodes by (intro find_cong_set) (auto simp: key_del)
  ultimately show ?thesis
    using assms by (simp add: lookup_scan invar_del nodes_del)
qed

end

end
