(* ===== verification/KTrans.thy ===== *)
theory KTrans
  imports Prelude
begin

text \<open>
  Labelled transition systems and their invariants, shared by the modules whose handlers are
  interleaved by the kernel: \<open>runs\<close> is the reflexive-transitive closure with the sequence of labels
  kept, and the locale \<open>safety_system\<close> is the contract of a module whose steps keep an invariant.
\<close>

inductive runs :: "('s \<Rightarrow> 'l \<Rightarrow> 's \<Rightarrow> bool) \<Rightarrow> 's \<Rightarrow> 'l list \<Rightarrow> 's \<Rightarrow> bool" for tr where
  runs_nil [intro]: "runs tr s [] s"
| runs_step: "runs tr s ls t \<Longrightarrow> tr t l u \<Longrightarrow> runs tr s (ls @ [l]) u"

lemma runs_one: "tr s l t \<Longrightarrow> runs tr s [l] t"
  using runs_step [of tr s "[]" s l t] by auto

lemma runs_two:
  assumes "tr s l t" and "tr t k u"
  shows "runs tr s [l, k] u"
  using runs_step [OF runs_one [of tr, OF assms(1)] assms(2)] by simp

lemma runs_append: "runs tr t ks u \<Longrightarrow> runs tr s ls t \<Longrightarrow> runs tr s (ls @ ks) u"
proof (induction rule: runs.induct)
  case (runs_step t0 ks v l w)
  then show ?case using runs.runs_step [of tr s "ls @ ks" v l w] by simp
qed simp

locale safety_system =
  fixes tr :: "'s \<Rightarrow> 'l \<Rightarrow> 's \<Rightarrow> bool"
    and init :: "'s \<Rightarrow> bool"
    and inv :: "'s \<Rightarrow> bool"
  assumes inv_init: "init s \<Longrightarrow> inv s"
    and inv_step: "inv s \<Longrightarrow> tr s l t \<Longrightarrow> inv t"
begin

lemma run_keeps: "runs tr s ls t \<Longrightarrow> inv s \<Longrightarrow> inv t"
  by (induction rule: runs.induct) (auto intro: inv_step)

lemma run_inv: "init s \<Longrightarrow> runs tr s ls t \<Longrightarrow> inv t"
  using inv_init run_keeps by blast

text \<open>A relation between states that every step of a well-formed state respects holds along a run.\<close>

lemma run_relates:
  assumes "runs tr s ls t" and "inv s"
    and refl: "\<And>x. R x x" and trans: "\<And>x y z. R x y \<Longrightarrow> R y z \<Longrightarrow> R x z"
    and step: "\<And>x l y. inv x \<Longrightarrow> tr x l y \<Longrightarrow> R x y"
  shows "R s t"
  using assms(1,2)
proof (induction rule: runs.induct)
  case (runs_step s ls t l u)
  then show ?case using run_keeps trans step by blast
qed (rule refl)

end

end
