(* ===== verification/MP1.thy ===== *)
theory MP1
  imports KLib KList KTrans
begin

text \<open>
  The CPU-time module, \<open>MP1/mp1.c\<close> with \<open>MP1/mp1_given.h\<close>, and its user program.

  The state is the list of registered processes with the store of their structs, the counter
  \<open>size\<close>, the spin lock, whether the timer is armed, the number of work items queued, and whether the
  work queue exists.  The processes of the kernel are a parameter of the work: a map from pids to
  user times.  Every handler runs to completion under the lock; waiting for queued work while
  holding the lock the work needs is the fault \<open>Deadlock\<close>.

  The specification is a table of pid and CPU time, \<open>cpu_table\<close>; registering appends to it, the
  work keeps the living processes and brings their times up to date, reading prints it.
\<close>

section \<open>State\<close>

record proc_cpu =
  cpu_usage :: u64
  pc_pid :: u32

record mp1 =
  pc_list :: "addr list"
  pc_heap :: "addr \<rightharpoonup> proc_cpu"
  pc_size :: u32
  pc_lock :: bool
  tm_armed :: bool
  works :: nat
  wq :: bool

definition mp1_spin_lock :: "mp1 \<Rightarrow> mp1 kres" where
  "mp1_spin_lock s = (if pc_lock s then Inl Deadlock else Inr (s\<lparr>pc_lock := True\<rparr>))"

definition mp1_spin_unlock :: "mp1 \<Rightarrow> mp1" where
  "mp1_spin_unlock s = s\<lparr>pc_lock := False\<rparr>"

text \<open>\<open>get_cpu_use\<close>: the return value and the time stored through the pointer.\<close>

definition mp1_get_cpu_use :: "(u32 \<rightharpoonup> u64) \<Rightarrow> u32 \<Rightarrow> int \<times> u64 option" where
  "mp1_get_cpu_use utime pid = (case utime pid of Some t \<Rightarrow> (0, Some t) | None \<Rightarrow> (- 1, None))"

section \<open>The proc file\<close>

definition pid_line1 :: "u32 \<times> u64 \<Rightarrow> string" where
  "pid_line1 e = (case e of (pid, usage) \<Rightarrow> ''PID'' @ fmt_d pid @ '': '' @ fmt_lu usage @ '' ms '' @ [newline])"

definition mp1_buffsize :: nat where "mp1_buffsize = 2048"

text \<open>The printing loop: \<open>kbuf\<close> is the text so far, without its NUL.\<close>

fun print_procs :: "(addr \<rightharpoonup> proc_cpu) \<Rightarrow> string \<Rightarrow> addr list \<Rightarrow> string kres" where
  "print_procs h kbuf [] = Inr kbuf"
| "print_procs h kbuf (j # rest) =
     bindK (deref h j) (\<lambda>n.
       let kbuf' = kbuf @ pid_line1 (pc_pid n, cpu_usage n)
       in if mp1_buffsize < length kbuf' + 1 then Inl OutOfBounds else print_procs h kbuf' rest)"

definition errinfo :: string where
  "errinfo = ''No PID is regiested :('' @ [newline]"

text \<open>
  \<open>myread\<close>: the return value, the bytes copied to the user's buffer and the new file offset.  The
  length the user asks for is not looked at.  The argument \<open>kmalloc\<close> is the block the allocator
  returned, with the bytes it happens to hold; they are what is copied when nothing is printed.
\<close>

definition mp1_myread :: "char list option \<Rightarrow> nat \<Rightarrow> mp1 \<Rightarrow> (nat \<times> string \<times> nat) kres" where
  "mp1_myread kmalloc offset s =
     (let early = (if pc_size s = 0 then errinfo @ [NUL] else []);
          offset = offset + length early
      in if 0 < offset then Inr (0, early, offset)
         else bindK (nonnull kmalloc) (\<lambda>block.
           bindK (mp1_spin_lock s) (\<lambda>s.
           bindK (if \<not> list_empty (pc_list s) then print_procs (pc_heap s) [] (pc_list s) else Inr []) (\<lambda>text.
             let shift = length text;
                 kbuf = (if list_empty (pc_list s) then block else text @ NUL # drop (shift + 1) block)
             in Inr (shift + 1, take (shift + 1) kbuf, offset + shift)))))"

text \<open>\<open>mywrite\<close>: an error code of \<open>kstrtoint\<close>, or the length of the request.\<close>

definition mp1_mywrite :: "addr option \<Rightarrow> string \<Rightarrow> mp1 \<Rightarrow> ((errno + nat) \<times> mp1) kres" where
  "mp1_mywrite kmalloc buff s =
     (let kbuf = buff @ [NUL] in
      bindK (str_at kbuf 0) (\<lambda>str.
        case kstrtoint str of
          Inl e \<Rightarrow> Inr (Inl e, s)
        | Inr curr_pid \<Rightarrow>
            bindK (nonnull kmalloc) (\<lambda>a.
            bindK (mp1_spin_lock s) (\<lambda>s.
              Inr (Inr (length buff), mp1_spin_unlock (s\<lparr>pc_heap := (pc_heap s)(a \<mapsto> \<lparr>cpu_usage = 0, pc_pid = curr_pid\<rparr>),
                 pc_list := list_add_tail a (pc_list s), pc_size := pc_size s + 1\<rparr>))))))"

section \<open>Timer and work\<close>

fun update_loop :: "(u32 \<rightharpoonup> u64) \<Rightarrow> addr list \<Rightarrow> mp1 \<Rightarrow> mp1 kres" where
  "update_loop utime [] s = Inr s"
| "update_loop utime (cur # rest) s =
     bindK (deref (pc_heap s) cur) (\<lambda>n.
       let (ret, t) = mp1_get_cpu_use utime (pc_pid n)
       in if ret = 0 then update_loop utime rest (s\<lparr>pc_heap := (pc_heap s)(cur \<mapsto> n\<lparr>cpu_usage := the t\<rparr>)\<rparr>)
          else update_loop utime rest (s\<lparr>pc_list := list_del cur (pc_list s),
                 pc_heap := (pc_heap s)(cur := None), pc_size := pc_size s - 1\<rparr>))"

definition wq_callback :: "(u32 \<rightharpoonup> u64) \<Rightarrow> mp1 \<Rightarrow> mp1 kres" where
  "wq_callback utime s =
     bindK (mp1_spin_lock s) (\<lambda>s.
     bindK (update_loop utime (pc_list s) s) (\<lambda>s.
       Inr ((mp1_spin_unlock s)\<lparr>works := works s - 1\<rparr>)))"

definition mp1_tm_callback :: "bool \<Rightarrow> mp1 \<Rightarrow> mp1" where
  "mp1_tm_callback kmalloc_ok s =
     (let s = s\<lparr>tm_armed := True\<rparr> in if kmalloc_ok then s\<lparr>works := works s + 1\<rparr> else s)"

section \<open>Loading and unloading\<close>

text \<open>
  The entries below \<open>/proc\<close>.  The file is created before the result of \<open>proc_mkdir\<close> is looked at, with a
  null parent, that is in \<open>/proc\<close> itself, when there is no directory; \<open>proc_remove\<close> of a null entry does
  nothing, so the file stays behind when loading fails.
\<close>

definition mp1_proc_entries :: "bool \<Rightarrow> bool \<Rightarrow> string list" where
  "mp1_proc_entries proc_mkdir_ok proc_create_ok =
     (if proc_mkdir_ok then [''mp1''] else [])
     @ (if proc_create_ok then [(if proc_mkdir_ok then ''mp1/'' else []) @ ''status''] else [])"

definition mp1_init :: "bool \<Rightarrow> bool \<Rightarrow> (errno + mp1) \<times> string list" where
  "mp1_init proc_mkdir_ok proc_create_ok =
     (if \<not> proc_mkdir_ok then Inl ENOMEM
      else Inr \<lparr>pc_list = [], pc_heap = Map.empty, pc_size = 0, pc_lock = False, tm_armed = True, works = 0, wq = True\<rparr>,
      mp1_proc_entries proc_mkdir_ok proc_create_ok)"

text \<open>\<open>freell\<close>: take the first node off the list and free it until the list is empty.\<close>

function freell :: "mp1 \<Rightarrow> mp1 kres" where
  "freell s =
     (case pc_list s of
        [] \<Rightarrow> Inr s
      | cur # _ \<Rightarrow>
          (case pc_heap s cur of
             None \<Rightarrow> Inl UseAfterFree
           | Some n \<Rightarrow> freell (s\<lparr>pc_list := list_del cur (pc_list s), pc_heap := (pc_heap s)(cur := None)\<rparr>)))"
  by pat_completeness auto
termination
  by (relation "measure (\<lambda>s. length (pc_list s))") (auto simp: list_del_def)

declare freell.simps [simp del]

text \<open>
  \<open>destroy_workqueue\<close> runs the works that are still queued and waits for them; each of them takes
  the lock, which \<open>mp1_exit\<close> holds.
\<close>

fun flush_works :: "(u32 \<rightharpoonup> u64) \<Rightarrow> nat \<Rightarrow> mp1 \<Rightarrow> mp1 kres" where
  "flush_works utime 0 s = Inr s"
| "flush_works utime (Suc n) s = bindK (wq_callback utime s) (flush_works utime n)"

definition destroy_workqueue :: "(u32 \<rightharpoonup> u64) \<Rightarrow> mp1 \<Rightarrow> mp1 kres" where
  "destroy_workqueue utime s = bindK (flush_works utime (works s) s) (\<lambda>s. Inr (s\<lparr>wq := False\<rparr>))"

definition mp1_exit :: "(u32 \<rightharpoonup> u64) \<Rightarrow> mp1 \<Rightarrow> mp1 kres" where
  "mp1_exit utime s =
     bindK (mp1_spin_lock (s\<lparr>tm_armed := False\<rparr>)) (\<lambda>s.
     bindK (destroy_workqueue utime s) (\<lambda>s.
     bindK (freell s) (\<lambda>s. Inr (mp1_spin_unlock s))))"

section \<open>The user program\<close>

text \<open>
  \<open>echo\<close> writes the pid and a newline.  \<open>workfunc1\<close> polls the clock until more than \<open>dur\<close> seconds
  have passed; the clock is the sequence of seconds it reads, and the result the number of polls.
\<close>

definition userapp_request :: "u32 \<Rightarrow> string" where
  "userapp_request mypid = fmt_d mypid @ [newline]"

fun workfunc1 :: "int \<Rightarrow> int \<Rightarrow> int list \<Rightarrow> nat option" where
  "workfunc1 t1 dur [] = None"
| "workfunc1 t1 dur (t2 # ts) = (if dur < t2 - t1 then Some 1 else map_option Suc (workfunc1 t1 dur ts))"

end
