(* ===== verification/MP1_Correct.thy ===== *)
theory MP1_Correct
  imports MP1
begin

text \<open>
  Correctness of the CPU-time module: its handlers implement operations on a table of pids and CPU
  times, its states stay well formed under every interleaving of requests, timer and work, what a read
  returns and when its buffer is too small, and what unloading does.
\<close>

section \<open>The table\<close>

definition cpu_table :: "mp1 \<Rightarrow> (u32 \<times> u64) list" where
  "cpu_table s = map (\<lambda>a. case pc_heap s a of Some n \<Rightarrow> (pc_pid n, cpu_usage n) | None \<Rightarrow> (0, 0)) (pc_list s)"

fun refresh :: "(u32 \<rightharpoonup> u64) \<Rightarrow> (u32 \<times> u64) list \<Rightarrow> (u32 \<times> u64) list" where
  "refresh utime [] = []"
| "refresh utime ((p, u) # es) = (case utime p of Some t \<Rightarrow> (p, t) # refresh utime es | None \<Rightarrow> refresh utime es)"

definition mp1_inv :: "mp1 \<Rightarrow> bool" where
  "mp1_inv s = (klist_inv (pc_list s) (pc_heap s) \<and> pc_size s = of_nat (length (pc_list s))
     \<and> \<not> pc_lock s \<and> tm_armed s \<and> wq s)"

definition node_entry :: "proc_cpu option \<Rightarrow> u32 \<times> u64" where
  "node_entry n = (case n of Some n \<Rightarrow> (pc_pid n, cpu_usage n) | None \<Rightarrow> (0, 0))"

lemma cpu_table_alt: "cpu_table s = map (\<lambda>a. node_entry (pc_heap s a)) (pc_list s)"
  by (simp add: cpu_table_def node_entry_def)

lemma refresh_append: "refresh utime (xs @ ys) = refresh utime xs @ refresh utime ys"
  by (induction xs rule: refresh.induct) (auto split: option.split)

section \<open>The work\<close>

text \<open>
  \<open>refreshed utime pre todo s t\<close>: from \<open>s\<close>, whose list is \<open>pre\<close> followed by \<open>todo\<close>, the loop over
  \<open>todo\<close> has led to \<open>t\<close>: the nodes of \<open>pre\<close> are untouched and those of \<open>todo\<close> brought up to date.
\<close>

definition entries :: "mp1 \<Rightarrow> addr list \<Rightarrow> (u32 \<times> u64) list" where
  "entries s xs = map (\<lambda>a. node_entry (pc_heap s a)) xs"

definition sized :: "mp1 \<Rightarrow> bool" where
  "sized s = (klist_inv (pc_list s) (pc_heap s) \<and> pc_size s = of_nat (length (pc_list s)))"

definition refreshed :: "(u32 \<rightharpoonup> u64) \<Rightarrow> addr list \<Rightarrow> addr list \<Rightarrow> mp1 \<Rightarrow> mp1 \<Rightarrow> bool" where
  "refreshed utime pre todo s t =
     ((\<exists>rest. pc_list t = pre @ rest \<and> entries t rest = refresh utime (entries s todo))
      \<and> entries t pre = entries s pre \<and> sized t
      \<and> pc_lock t = pc_lock s \<and> tm_armed t = tm_armed s \<and> works t = works s \<and> wq t = wq s)"

lemma entries_upd: "x \<notin> set xs \<Longrightarrow> pc_heap s1 = (pc_heap s)(x := v) \<Longrightarrow> entries s1 xs = entries s xs"
  by (auto simp: entries_def)

lemma refreshed_keep:
  assumes "refreshed utime (pre @ [x]) todo s1 t" and "s1 = s\<lparr>pc_heap := (pc_heap s)(x \<mapsto> n\<lparr>cpu_usage := u\<rparr>)\<rparr>"
    and "pc_heap s x = Some n" and "utime (pc_pid n) = Some u" and "x \<notin> set pre \<union> set todo"
  shows "refreshed utime pre (x # todo) s t"
proof -
  have e: "entries s1 todo = entries s todo" "entries s1 pre = entries s pre"
    using assms(2,5) by (auto intro!: entries_upd)
  obtain rest where r: "pc_list t = (pre @ [x]) @ rest" "entries t rest = refresh utime (entries s todo)"
    using assms(1) e by (auto simp: refreshed_def)
  have ex: "entries t (pre @ [x]) = entries s1 (pre @ [x])" using assms(1) by (simp add: refreshed_def)
  then have "entries t (x # rest) = refresh utime (entries s (x # todo))"
    using assms(2-4) r(2) by (simp add: entries_def node_entry_def [of "Some _"])
  moreover have "entries t pre = entries s pre" using ex e by (simp add: entries_def)
  ultimately show ?thesis using assms(1,2) r(1) by (auto simp: refreshed_def)
qed

lemma refreshed_drop:
  assumes "refreshed utime pre todo s1 t"
    and "s1 = s\<lparr>pc_list := list_del x (pc_list s), pc_heap := (pc_heap s)(x := None), pc_size := pc_size s - 1\<rparr>"
    and "pc_heap s x = Some n" and "utime (pc_pid n) = None" and "x \<notin> set pre \<union> set todo"
  shows "refreshed utime pre (x # todo) s t"
proof -
  have "entries s1 todo = entries s todo" "entries s1 pre = entries s pre"
    using assms(2,5) by (auto intro!: entries_upd)
  moreover have "refresh utime (entries s (x # todo)) = refresh utime (entries s todo)"
    using assms(3,4) by (simp add: entries_def node_entry_def [of "Some _"])
  ultimately show ?thesis using assms(1,2) by (simp add: refreshed_def)
qed

lemma update_loop_spec:
  assumes "pc_list s = pre @ todo" and "sized s"
  shows "\<exists>t. update_loop utime todo s = Inr t \<and> refreshed utime pre todo s t"
  using assms
proof (induction todo arbitrary: s pre)
  case Nil
  then show ?case by (simp add: refreshed_def entries_def)
next
  case (Cons x todo)
  have dist: "distinct (pre @ x # todo)" "x \<in> dom (pc_heap s)"
    using Cons.prems by (auto simp: sized_def klist_inv_def)
  then obtain n where n: "pc_heap s x = Some n" by blast
  show ?case
  proof (cases "utime (pc_pid n)")
    case (Some u)
    define s1 where "s1 = s\<lparr>pc_heap := (pc_heap s)(x \<mapsto> n\<lparr>cpu_usage := u\<rparr>)\<rparr>"
    have "pc_list s1 = (pre @ [x]) @ todo" "sized s1"
      using Cons.prems by (auto simp: s1_def sized_def klist_inv_def)
    from Cons.IH [OF this] obtain t where t: "update_loop utime todo s1 = Inr t" "refreshed utime (pre @ [x]) todo s1 t"
      by blast
    have "update_loop utime (x # todo) s = update_loop utime todo s1"
      using n Some by (simp add: deref_def mp1_get_cpu_use_def s1_def)
    moreover have "refreshed utime pre (x # todo) s t"
      by (rule refreshed_keep [where ?s1.0 = s1 and n = n and u = u, OF t(2) s1_def n Some]) (use dist(1) in auto)
    ultimately show ?thesis using t(1) by simp
  next
    case None
    define s1 where "s1 = s\<lparr>pc_list := list_del x (pc_list s), pc_heap := (pc_heap s)(x := None), pc_size := pc_size s - 1\<rparr>"
    have "pc_list s1 = pre @ todo" "sized s1"
      using Cons.prems dist by (auto simp: s1_def sized_def klist_inv_def list_del_def remove1_append)
    from Cons.IH [OF this] obtain t where t: "update_loop utime todo s1 = Inr t" "refreshed utime pre todo s1 t"
      by blast
    have "update_loop utime (x # todo) s = update_loop utime todo s1"
      using n None by (simp add: deref_def mp1_get_cpu_use_def s1_def)
    moreover have "refreshed utime pre (x # todo) s t"
      by (rule refreshed_drop [where ?s1.0 = s1 and n = n, OF t(2) s1_def n None]) (use dist(1) in auto)
    ultimately show ?thesis using t(1) by simp
  qed
qed

lemma wq_callback_spec:
  assumes inv: "mp1_inv s"
  shows "\<exists>t. wq_callback utime s = Inr t \<and> mp1_inv t \<and> cpu_table t = refresh utime (cpu_table s) \<and> works t = works s - 1"
proof -
  let ?s = "s\<lparr>pc_lock := True\<rparr>"
  have "pc_list ?s = [] @ pc_list s" "sized ?s" using inv by (simp_all add: mp1_inv_def sized_def)
  from update_loop_spec [OF this] obtain t where "update_loop utime (pc_list s) ?s = Inr t"
    "refreshed utime [] (pc_list s) ?s t" by blast
  then show ?thesis
    using inv by (auto simp: wq_callback_def mp1_spin_lock_def mp1_spin_unlock_def mp1_inv_def cpu_table_alt
        refreshed_def sized_def entries_def)
qed

section \<open>Requests and reads\<close>

lemma mywrite_eq:
  assumes "\<not> pc_lock s"
  shows "mp1_mywrite k buff s =
    (case kstrtoint (cstring (buff @ [NUL])) of
       Inl e \<Rightarrow> Inr (Inl e, s)
     | Inr p \<Rightarrow>
         (case k of None \<Rightarrow> Inl NullDeref
          | Some a \<Rightarrow> Inr (Inr (length buff), s\<lparr>pc_heap := (pc_heap s)(a \<mapsto> \<lparr>cpu_usage = 0, pc_pid = p\<rparr>),
              pc_list := pc_list s @ [a], pc_size := pc_size s + 1\<rparr>)))"
  using assms
  by (auto simp: mp1_mywrite_def str_at_def mp1_spin_lock_def mp1_spin_unlock_def list_add_tail_def
      split: option.split sum.split)

lemma mywrite_inv:
  assumes "mp1_inv s" and "mp1_mywrite (Some a) buff s = Inr (r, t)" and "pc_heap s a = None"
  shows "mp1_inv t \<and> works t = works s \<and> cpu_table t =
    (case kstrtoint (cstring (buff @ [NUL])) of Inl e \<Rightarrow> cpu_table s | Inr p \<Rightarrow> cpu_table s @ [(p, 0)])"
proof -
  have a: "a \<notin> set (pc_list s)" using assms(1,3) by (auto simp: mp1_inv_def klist_inv_def)
  have free: "\<not> pc_lock s" using assms(1) by (simp add: mp1_inv_def)
  have old: "map (\<lambda>b. node_entry (((pc_heap s)(a \<mapsto> v)) b)) (pc_list s) = map (\<lambda>b. node_entry (pc_heap s b)) (pc_list s)" for v
    using a by (intro map_upd_notin)
  show ?thesis
    using assms(1-3) a old unfolding mywrite_eq [OF free]
    by (auto simp: mp1_inv_def klist_inv_def cpu_table_alt node_entry_def [of "Some _"] simp del: map_eq_conv fun_upd_apply
        split: sum.splits) (auto simp: node_entry_def)
qed

definition table_text :: "(u32 \<times> u64) list \<Rightarrow> string" where
  "table_text es = concat (map pid_line1 es)"

lemma print_procs_eq:
  assumes "set xs \<subseteq> dom h"
  shows "print_procs h kbuf xs =
    (let text = kbuf @ table_text (map (\<lambda>a. node_entry (h a)) xs)
     in if xs = [] \<or> length text < mp1_buffsize then Inr text else Inl OutOfBounds)"
  using assms
proof (induction xs arbitrary: kbuf)
  case (Cons x xs)
  then obtain n where n: "h x = Some n" by auto
  have e: "node_entry (h x) = (pc_pid n, cpu_usage n)" by (simp add: n node_entry_def)
  let ?k = "kbuf @ pid_line1 (pc_pid n, cpu_usage n)"
  have "print_procs h ?k xs = (let text = ?k @ table_text (map (\<lambda>a. node_entry (h a)) xs)
     in if xs = [] \<or> length text < mp1_buffsize then Inr text else Inl OutOfBounds)"
    using Cons.prems by (intro Cons.IH) simp
  then show ?case
    using n e by (auto simp: deref_def Let_def table_text_def)
qed (simp add: table_text_def)

lemma size_nonzero:
  assumes "mp1_inv s" and "cpu_table s \<noteq> []" and "length (cpu_table s) < 2 ^ 32"
  shows "pc_size s \<noteq> 0"
proof -
  have "unat (pc_size s) = length (cpu_table s)"
    using assms(1,3) by (simp add: mp1_inv_def cpu_table_def unsigned_of_nat take_bit_nat_eq_self)
  then show ?thesis using assms(2) by auto
qed

lemma myread_eq:
  assumes "mp1_inv s" and "cpu_table s \<noteq> []" and "length (cpu_table s) < 2 ^ 32"
  shows "mp1_myread (Some block) 0 s =
    (if length (table_text (cpu_table s)) < mp1_buffsize
     then Inr (length (table_text (cpu_table s)) + 1, table_text (cpu_table s) @ [NUL], length (table_text (cpu_table s)))
     else Inl OutOfBounds)"
proof -
  have len: "length (pc_list s) = length (cpu_table s)" by (simp add: cpu_table_def)
  have "pc_size s \<noteq> 0" using assms by (rule size_nonzero)
  moreover have "set (pc_list s) \<subseteq> dom (pc_heap s)" "\<not> pc_lock s" using assms(1) by (simp_all add: mp1_inv_def klist_inv_def)
  moreover have "pc_list s \<noteq> []" using assms(2) len by auto
  ultimately show ?thesis
    by (simp add: mp1_myread_def print_procs_eq mp1_spin_lock_def list_empty_def cpu_table_alt Let_def)
qed

lemma length_pid_line1: "length (pid_line1 e) \<le> 41"
  using length_fmt_d [of "fst e"] length_fmt_lu [of "snd e"] by (simp add: pid_line1_def case_prod_unfold)

lemma length_table_text: "length (table_text es) \<le> 41 * length es"
proof (induction es)
  case (Cons e es)
  then show ?case using length_pid_line1 [of e] by (simp add: table_text_def)
qed (simp add: table_text_def)

lemma length_pid_line1_ge: "12 \<le> length (pid_line1 e)"
proof -
  have "1 \<le> length (fmt_d p)" for p using fmt_d_nonempty [of p] by (cases "fmt_d p") auto
  moreover have "1 \<le> length (fmt_lu u)" for u using dec_nat_nonempty [of "unat u"] by (cases "dec_nat (unat u)") (auto simp: fmt_lu_def)
  ultimately have "1 \<le> length (fmt_d (fst e))" "1 \<le> length (fmt_lu (snd e))" by blast+
  then show ?thesis by (simp add: pid_line1_def case_prod_unfold)
qed

lemma length_table_text_ge: "12 * length es \<le> length (table_text es)"
proof (induction es)
  case (Cons e es)
  then show ?case using length_pid_line1_ge [of e] by (simp add: table_text_def)
qed (simp add: table_text_def)

section \<open>Unloading\<close>

lemma freell_spec:
  "klist_inv (pc_list s) (pc_heap s) \<Longrightarrow> freell s = Inr (s\<lparr>pc_list := [], pc_heap := Map.empty\<rparr>)"
proof (induction s rule: freell.induct)
  case (1 s)
  show ?case
  proof (cases "pc_list s")
    case Nil
    then have "s\<lparr>pc_list := [], pc_heap := Map.empty\<rparr> = s" using 1(2) by (auto simp: klist_inv_def intro: mp1.equality)
    then show ?thesis using Nil by (subst freell.simps) simp
  next
    case (Cons x xs)
    then obtain n where n: "pc_heap s x = Some n" using 1(2) by (auto simp: klist_inv_def dom_def)
    let ?s1 = "s\<lparr>pc_list := list_del x (pc_list s), pc_heap := (pc_heap s)(x := None)\<rparr>"
    have "klist_inv (pc_list ?s1) (pc_heap ?s1)" using klist_inv_del [OF 1(2)] by simp
    then have "freell ?s1 = Inr (?s1\<lparr>pc_list := [], pc_heap := Map.empty\<rparr>)" by (rule 1(1) [OF Cons n])
    then show ?thesis using Cons n by (subst freell.simps) simp
  qed
qed

text \<open>A work cannot run while the lock is held; with the lock free the queued works run out.\<close>

lemma flush_works_locked: "0 < n \<Longrightarrow> pc_lock s \<Longrightarrow> flush_works utime n s = Inl Deadlock"
  by (cases n) (simp_all add: wq_callback_def mp1_spin_lock_def)

lemma mp1_exit_works: "\<not> pc_lock s \<Longrightarrow> 0 < works s \<Longrightarrow> mp1_exit utime s = Inl Deadlock"
  by (simp add: mp1_exit_def destroy_workqueue_def mp1_spin_lock_def flush_works_locked)

lemma flush_works_ends:
  "mp1_inv s \<Longrightarrow> works s = n \<Longrightarrow> \<exists>t. flush_works utime n s = Inr t \<and> works t = 0"
proof (induction n arbitrary: s)
  case (Suc n)
  obtain t where "wq_callback utime s = Inr t" "mp1_inv t" "works t = works s - 1"
    using wq_callback_spec [OF Suc.prems(1)] by blast
  with Suc.IH [of t] Suc.prems(2) show ?case by simp
qed simp

section \<open>The module as a transition system\<close>

datatype mp1_event = Write addr string | Timer bool | Work "u32 \<rightharpoonup> u64"

inductive mp1_trans :: "mp1 \<Rightarrow> mp1_event \<Rightarrow> mp1 \<Rightarrow> bool" where
  mp1_write: "pc_heap s a = None \<Longrightarrow> mp1_mywrite (Some a) buff s = Inr (r, t) \<Longrightarrow> mp1_trans s (Write a buff) t"
| mp1_timer: "tm_armed s \<Longrightarrow> mp1_trans s (Timer b) (mp1_tm_callback b s)"
| mp1_work: "0 < works s \<Longrightarrow> wq_callback utime s = Inr t \<Longrightarrow> mp1_trans s (Work utime) t"

interpretation cpu: safety_system mp1_trans "\<lambda>s. \<exists>c. fst (mp1_init True c) = Inr s" mp1_inv
proof unfold_locales
  fix s assume "\<exists>c. fst (mp1_init True c) = Inr s"
  then show "mp1_inv s" by (auto simp: mp1_init_def mp1_inv_def)
next
  fix s l t assume inv: "mp1_inv s" and "mp1_trans s l t"
  from this(2) show "mp1_inv t"
  proof cases
    case (mp1_write a buff r)
    then show ?thesis using mywrite_inv [OF inv] by blast
  next
    case (mp1_work utime)
    then show ?thesis using wq_callback_spec [OF inv, of utime] by auto
  next
    case (mp1_timer b)
    then show ?thesis using inv by (simp add: mp1_tm_callback_def mp1_inv_def Let_def)
  qed
qed

lemma mp1_run_inv: "fst (mp1_init True c) = Inr s0 \<Longrightarrow> runs mp1_trans s0 ls s \<Longrightarrow> mp1_inv s"
  using cpu.run_inv by blast

section \<open>The user program and a crowd of them\<close>

lemma cstring_request: "cstring (userapp_request p @ [NUL]) = fmt_d p @ [newline]"
proof -
  have "NUL \<notin> set (fmt_d p @ [newline])" by (simp add: newline_def NUL_def [symmetric]) (simp add: NUL_def)
  then show ?thesis using cstring_append_NUL [of "fmt_d p @ [newline]" "[]"] by (simp add: userapp_request_def)
qed

lemma request_registers:
  assumes inv: "mp1_inv s" and fresh: "pc_heap s a = None"
  shows "\<exists>t. mp1_mywrite (Some a) (userapp_request p) s = Inr (Inr (length (userapp_request p)), t)
    \<and> mp1_inv t \<and> cpu_table t = cpu_table s @ [(p, 0)] \<and> pc_list t = pc_list s @ [a]"
proof -
  have k: "kstrtoint (cstring (userapp_request p @ [NUL])) = Inr p"
    unfolding cstring_request by (rule kstrtoint_dec_int) simp
  have free: "\<not> pc_lock s" using inv by (simp add: mp1_inv_def)
  define t where "t = s\<lparr>pc_heap := (pc_heap s)(a \<mapsto> \<lparr>cpu_usage = 0, pc_pid = p\<rparr>),
              pc_list := pc_list s @ [a], pc_size := pc_size s + 1\<rparr>"
  have w: "mp1_mywrite (Some a) (userapp_request p) s = Inr (Inr (length (userapp_request p)), t)"
    unfolding mywrite_eq [OF free] k by (simp add: t_def)
  then show ?thesis using mywrite_inv [OF inv w fresh] k by (simp add: t_def)
qed

lemma crowd:
  assumes "fst (mp1_init True c) = Inr s0"
  shows "\<exists>ls s. runs mp1_trans s0 ls s \<and> cpu_table s = replicate n (p, 0) \<and> pc_list s = [0..<n]"
proof (induction n)
  case 0
  have "cpu_table s0 = []" "pc_list s0 = []" using assms by (auto simp: mp1_init_def cpu_table_def)
  then show ?case by (intro exI [of _ "[]"] exI [of _ s0]) auto
next
  case (Suc n)
  then obtain ls s where s: "runs mp1_trans s0 ls s" "cpu_table s = replicate n (p, 0)" "pc_list s = [0..<n]" by blast
  have inv: "mp1_inv s" by (rule mp1_run_inv [OF assms s(1)])
  then have fresh: "pc_heap s n = None" using s(3) by (auto simp: mp1_inv_def klist_inv_def domIff)
  from request_registers [OF inv fresh, of p]
  obtain t where t: "mp1_mywrite (Some n) (userapp_request p) s = Inr (Inr (length (userapp_request p)), t)"
    "cpu_table t = cpu_table s @ [(p, 0)]" "pc_list t = pc_list s @ [n]" by blast
  then have "runs mp1_trans s0 (ls @ [Write n (userapp_request p)]) t"
    using fresh by (intro runs_step [OF s(1)] mp1_write)
  moreover have "cpu_table t = replicate (Suc n) (p, 0)" "pc_list t = [0..<Suc n]"
    using t(2,3) s(2,3) by (simp_all add: replicate_append_same)
  ultimately show ?case by blast
qed

lemma table_text_replicate: "length (table_text (replicate n e)) = n * length (pid_line1 e)"
  by (induction n) (simp_all add: table_text_def)

text \<open>The timed loop ends at the first reading of the clock that is more than \<open>dur\<close> after its start.\<close>

lemma workfunc1_ends:
  assumes "\<forall>t \<in> set early. t - t1 \<le> dur" and "dur < t2 - t1"
  shows "workfunc1 t1 dur (early @ t2 # later) = Some (length early + 1)"
  using assms by (induction early) auto

definition demo1_start :: mp1 where
  "demo1_start = \<lparr>pc_list = [], pc_heap = Map.empty, pc_size = 0, pc_lock = False, tm_armed = True, works = 0, wq = True\<rparr>"

lemma demo1_init: "fst (mp1_init True True) = Inr demo1_start"
  by (simp add: mp1_init_def demo1_start_def)

section \<open>Properties\<close>

text \<open>
  C5: In every reachable state the handlers implement the table of pids and CPU times: the work never faults, keeps the
  living processes in order with their current user time and drops the others; a request that is a
  number appends that pid with time 0, any other request is refused with the error of \<open>kstrtoint\<close> and
  changes nothing; \<open>size\<close> is the length of the table.\<close>
theorem cpu_table_refinement:
  assumes "fst (mp1_init True c) = Inr s0" and "runs mp1_trans s0 ls s" and "pc_heap s a = None"
  shows "(\<exists>t. wq_callback utime s = Inr t \<and> cpu_table t = refresh utime (cpu_table s))
    \<and> (\<exists>r t. mp1_mywrite (Some a) buff s = Inr (r, t)
        \<and> (case kstrtoint (cstring (buff @ [NUL])) of
             Inl e \<Rightarrow> r = Inl e \<and> t = s
           | Inr p \<Rightarrow> r = Inr (length buff) \<and> cpu_table t = cpu_table s @ [(p, 0)]))
    \<and> pc_size s = of_nat (length (cpu_table s))"
proof (intro conjI)
  have inv: "mp1_inv s" by (rule mp1_run_inv [OF assms(1,2)])
  then have free: "\<not> pc_lock s" by (simp add: mp1_inv_def)
  show "\<exists>t. wq_callback utime s = Inr t \<and> cpu_table t = refresh utime (cpu_table s)"
    using wq_callback_spec [OF inv] by blast
  show "pc_size s = of_nat (length (cpu_table s))" using inv by (simp add: mp1_inv_def cpu_table_def)
  show "\<exists>r t. mp1_mywrite (Some a) buff s = Inr (r, t)
        \<and> (case kstrtoint (cstring (buff @ [NUL])) of
             Inl e \<Rightarrow> r = Inl e \<and> t = s
           | Inr p \<Rightarrow> r = Inr (length buff) \<and> cpu_table t = cpu_table s @ [(p, 0)])"
    using mywrite_inv [OF inv _ assms(3), of buff] mywrite_eq [OF free, of "Some a" buff]
    by (auto split: sum.split)
qed

theorem cpu_table_refinement_witness:
  "\<exists>ls s t. runs mp1_trans demo1_start ls s \<and> cpu_table s = [(5, 0)]
     \<and> wq_callback [5 \<mapsto> 77] s = Inr t \<and> cpu_table t = [(5, 77)]"
proof -
  obtain ls s where s: "runs mp1_trans demo1_start ls s" "cpu_table s = [(5, 0)]" "pc_list s = [0]"
    using crowd [OF demo1_init, of 1 5] by auto
  have "pc_heap s 1 = None"
    using mp1_run_inv [OF demo1_init s(1)] s(3) by (auto simp: mp1_inv_def klist_inv_def domIff)
  from cpu_table_refinement [OF demo1_init s(1) this, of "[5 \<mapsto> 77]" "[]"] show ?thesis using s by auto
qed

text \<open>
  C31: What a read returns: with nothing registered 0 bytes, although a message is copied; otherwise the printed
  table with its NUL, exactly as long as the text fits the 2048 byte buffer, which it does for up
  to 49 processes; a longer text is written behind the buffer.\<close>
theorem read_prints_the_table:
  assumes "fst (mp1_init True c) = Inr s0" and "runs mp1_trans s0 ls s" and "length (cpu_table s) < 2 ^ 32"
  shows "mp1_myread (Some block) 0 s =
    (if cpu_table s = [] then Inr (0, errinfo @ [NUL], length errinfo + 1)
     else if length (table_text (cpu_table s)) < 2048
     then Inr (length (table_text (cpu_table s)) + 1, table_text (cpu_table s) @ [NUL], length (table_text (cpu_table s)))
     else Inl OutOfBounds)
    \<and> (length (cpu_table s) \<le> 49 \<longrightarrow> length (table_text (cpu_table s)) < 2048)"
proof -
  have inv: "mp1_inv s" by (rule mp1_run_inv [OF assms(1,2)])
  have empty: "mp1_myread (Some block) 0 s = Inr (0, errinfo @ [NUL], length errinfo + 1)" if "cpu_table s = []"
    using that inv by (simp add: mp1_myread_def mp1_inv_def cpu_table_def)
  moreover have "length (table_text (cpu_table s)) < 2048" if "length (cpu_table s) \<le> 49"
    using that length_table_text [of "cpu_table s"] by simp
  ultimately show ?thesis
    using myread_eq [OF inv _ assms(3)] by (simp add: mp1_buffsize_def)
qed

theorem read_prints_the_table_witness:
  "\<exists>ls s. runs mp1_trans demo1_start ls s \<and> mp1_myread (Some (replicate 2048 NUL)) 0 s = Inr (13, ''PID5: 0 ms '' @ [newline, NUL], 12)"
proof -
  obtain ls s where s: "runs mp1_trans demo1_start ls s" "cpu_table s = [(5, 0)]"
    using crowd [OF demo1_init, of 1 5] by auto
  have "char_of (53 :: nat) = CHR ''5''" "char_of (48 :: nat) = CHR ''0''" by code_simp+
  then have "table_text [(5, 0)] = ''PID5: 0 ms '' @ [newline]"
    by (simp add: table_text_def pid_line1_def fmt_d_def fmt_lu_def dec_int_def dec_nat.simps digit_char_def)
  with read_prints_the_table [OF demo1_init s(1)] s show ?thesis by (intro exI [of _ ls] exI [of _ s]) simp
qed

text \<open>
  The overflow of the read buffer is within reach of unprivileged programs: for every pid, 171 registrations
  of it lead to a state in which the next read writes behind the 2048 byte buffer.\<close>
lemma read_overflow_is_reachable:
  assumes "fst (mp1_init True c) = Inr s0"
  shows "\<exists>ls s. runs mp1_trans s0 ls s \<and> length (cpu_table s) = 171 \<and> mp1_myread (Some block) 0 s = Inl OutOfBounds"
proof -
  obtain ls s where s: "runs mp1_trans s0 ls s" "cpu_table s = replicate 171 (p, 0)" using crowd [OF assms, of 171 p] by blast
  have "\<not> length (table_text (cpu_table s)) < mp1_buffsize"
    using length_pid_line1_ge [of "(p, 0)"] unfolding s(2) table_text_replicate by (simp add: mp1_buffsize_def)
  moreover have "cpu_table s \<noteq> []" "length (cpu_table s) < 2 ^ 32" by (simp_all add: s(2))
  ultimately have "mp1_myread (Some block) 0 s = Inl OutOfBounds"
    using myread_eq [OF mp1_run_inv [OF assms s(1)]] by simp
  then show ?thesis using s by (intro exI [of _ ls] exI [of _ s]) simp
qed

text \<open>
  C30: Unloading from a reachable state frees every struct and empties the list when no work is
  queued.  When the timer has queued works that have not run yet, \<open>destroy_workqueue\<close> runs them while
  \<open>mp1_exit\<close> holds the spin lock that they take: the module never unloads.  It is the held lock that
  does it: without it the same works run to completion.\<close>
theorem exit_frees_or_deadlocks:
  assumes "fst (mp1_init True c) = Inr s0" and "runs mp1_trans s0 ls s"
  shows "(works s = 0 \<longrightarrow> (\<exists>t. mp1_exit utime s = Inr t \<and> pc_list t = [] \<and> pc_heap t = Map.empty
        \<and> \<not> tm_armed t \<and> \<not> wq t \<and> \<not> pc_lock t))
    \<and> (0 < works s \<longrightarrow> mp1_exit utime s = Inl Deadlock)
    \<and> mp1_exit utime (mp1_tm_callback True s) = Inl Deadlock
    \<and> (\<exists>t. destroy_workqueue utime s = Inr t \<and> works t = 0)"
proof -
  have inv: "mp1_inv s" by (rule mp1_run_inv [OF assms])
  let ?s = "s\<lparr>tm_armed := False, pc_lock := True, wq := False\<rparr>"
  have "freell ?s = Inr (?s\<lparr>pc_list := [], pc_heap := Map.empty\<rparr>)"
    using inv by (intro freell_spec) (simp add: mp1_inv_def)
  moreover have "\<exists>t. destroy_workqueue utime s = Inr t \<and> works t = 0"
    using flush_works_ends [OF inv refl, of utime] by (auto simp: destroy_workqueue_def)
  moreover have "mp1_exit utime (mp1_tm_callback True s) = Inl Deadlock"
    using inv by (intro mp1_exit_works) (simp_all add: mp1_inv_def mp1_tm_callback_def)
  ultimately show ?thesis
    using inv mp1_exit_works [of s utime]
    by (simp add: mp1_exit_def destroy_workqueue_def mp1_spin_lock_def mp1_spin_unlock_def mp1_inv_def)
qed

theorem exit_frees_or_deadlocks_witness:
  "(\<exists>t. mp1_exit [5 \<mapsto> 77] demo1_start = Inr t \<and> pc_list t = [])
   \<and> mp1_exit [5 \<mapsto> 77] (mp1_tm_callback True demo1_start) = Inl Deadlock"
  using exit_frees_or_deadlocks [OF demo1_init runs_nil, of "[5 \<mapsto> 77]"] by (auto simp: demo1_start_def)

text \<open>When \<open>proc_mkdir\<close> fails, loading fails and leaves a file behind whose operations are gone.\<close>

lemma failed_load_leaves_proc_file: "mp1_init False True = (Inl ENOMEM, [''status''])"
  by (simp add: mp1_init_def mp1_proc_entries_def)

end
