(* ===== verification/MP1_User.thy ===== *)
theory MP1_User
  imports MP1_Correct
begin

text \<open>
  The user program of the CPU-time module (\<open>MP1/userapp.c\<close>) and its run against the module:
  it registers itself, computes for fifteen seconds and then becomes \<open>cat\<close>, which prints the proc
  file.  Meanwhile the module reacts to its timer, its work and to other registrations.  The shell
  behind \<open>system\<close> and the program \<open>cat\<close> are parameters; \<open>echo_writes\<close> and \<open>copies_file\<close> state what
  the program relies on.

  The second abstraction of the module is the fold \<open>table_step\<close> over the events of a run: the table
  of pids and times after any run is the fold of its events over the table before.
\<close>

section \<open>The table as a fold over the events\<close>

fun table_step :: "(u32 \<times> u64) list \<Rightarrow> mp1_event \<Rightarrow> (u32 \<times> u64) list" where
  "table_step es (Write a buff) =
     (case kstrtoint (cstring (buff @ [NUL])) of Inl _ \<Rightarrow> es | Inr p \<Rightarrow> es @ [(p, 0)])"
| "table_step es (Timer b) = es"
| "table_step es (Work utime) = refresh utime es"

lemma mp1_trans_table:
  assumes "mp1_inv s" and "mp1_trans s l t"
  shows "cpu_table t = table_step (cpu_table s) l"
  using assms(2)
proof cases
  case (mp1_write a buff r)
  then show ?thesis using mywrite_inv [OF assms(1) mp1_write(3,2)] by (auto split: sum.splits)
next
  case (mp1_timer b)
  then show ?thesis by (simp add: mp1_tm_callback_def cpu_table_def Let_def)
next
  case (mp1_work utime)
  then show ?thesis using wq_callback_spec [OF assms(1), of utime] by auto
qed

lemma runs_table:
  assumes "runs mp1_trans s ls t" and "mp1_inv s"
  shows "cpu_table t = foldl table_step (cpu_table s) ls"
  using assms
proof (induction rule: runs.induct)
  case (runs_step s ls t l u)
  then show ?case using mp1_trans_table [OF cpu.run_keeps [OF runs_step(1,4)] runs_step(2)] by simp
qed simp

section \<open>The unused functions of the program\<close>

text \<open>
  \<open>workfunc\<close>: the inner loop of \<open>workfunc\<close> adds in \<open>int\<close> and goes on while the sum is positive; it
  starts with a sum of zero.
\<close>

partial_function (option) fib_loop :: "u32 \<Rightarrow> u32 \<Rightarrow> u32 \<Rightarrow> (u32 \<times> u32 \<times> u32) option" where
  "fib_loop i j result =
     (if 0 < sint result then fib_loop j (i + j) (i + j) else Some (i, j, result))"

function workfunc :: "int \<Rightarrow> unit option" where
  "workfunc n_times =
     (if 0 < n_times then
        (case fib_loop 0 1 0 of None \<Rightarrow> None | Some (i, j, result) \<Rightarrow> workfunc (n_times - 1))
      else Some ())"
  by pat_completeness auto
termination
  by (relation "measure nat") auto

declare workfunc.simps [simp del]

text \<open>
  \<open>kernel_syscall\<close>: \<open>fread(buf, 2048, 1, fp)\<close> asks for one item of 2048 bytes and returns the number
  of items; the program takes it for a number of bytes.  The result is what it prints, if anything.
\<close>

definition fread_items :: "nat \<Rightarrow> string \<Rightarrow> nat" where
  "fread_items item bytes = (if item \<le> length bytes then 1 else 0)"

definition kernel_syscall :: "string \<Rightarrow> (nat \<times> string) option" where
  "kernel_syscall bytes =
     (let readval = fread_items 2048 bytes
      in if readval < 1 then None
         else Some (readval, cstring ((take 2048 bytes)[readval := NUL])))"

section \<open>The run of the program\<close>

type_synonym file_read = "nat \<Rightarrow> (nat \<times> string \<times> nat) kres"

text \<open>
  \<open>kernel_cat\<close> becomes \<open>cat /proc/mp1/status\<close>: the program \<open>cat\<close> is given the read callback of the file
  as a function of the offset, and its output is \<open>None\<close> while it is still reading.  What the program
  has printed before, \<open>printed\<close>, and the line that \<open>kernel_cat\<close> prints itself are on the terminal when
  standard output is one; in a pipe or a file they are still in the buffer that \<open>execlp\<close> discards.
  The argument \<open>block\<close> is the kernel's read buffer before it is filled.
\<close>

definition kernel_cat ::
  "(file_read \<Rightarrow> string kres option) \<Rightarrow> bool \<Rightarrow> string \<Rightarrow> char list \<Rightarrow> mp1 \<Rightarrow> string kres option" where
  "kernel_cat cat tty printed block s =
     (let printed = printed @ ''start read the proc/mp1/status'' @ [newline]
      in map_option (mapK (\<lambda>copied. (if tty then printed else []) @ copied))
           (cat (\<lambda>off. mp1_myread (Some block) off s)))"

definition main1_duration :: int where "main1_duration = 15"

definition main1_cmd :: "u32 \<Rightarrow> string" where
  "main1_cmd mypid = ''echo '' @ fmt_d mypid @ '' > '' @ ''/proc/mp1/status''"

text \<open>
  \<open>main\<close>: the bytes that the shell writes to the proc file when it runs the command, the two lines
  about the command and its exit status \<open>ret\<close>, the fifteen seconds of work on the readings of the
  clock, during which the module goes from \<open>s1\<close> to \<open>env s1\<close>, and the output of \<open>cat\<close>.
\<close>

definition main1_lines :: "u32 \<Rightarrow> int \<Rightarrow> string" where
  "main1_lines mypid ret = ''system call:'' @ main1_cmd mypid @ [newline]
     @ ''system call return: '' @ dec_int ret @ [newline]"

definition userapp1_main ::
  "(string \<Rightarrow> string) \<Rightarrow> (file_read \<Rightarrow> string kres option) \<Rightarrow> bool \<Rightarrow> int \<Rightarrow> char list \<Rightarrow>
   addr option \<Rightarrow> u32 \<Rightarrow> int \<Rightarrow> int list \<Rightarrow> (mp1 \<Rightarrow> mp1) \<Rightarrow> mp1 \<Rightarrow> string kres option" where
  "userapp1_main shell cat tty ret block kmalloc mypid t1 readings env s =
     (case mp1_mywrite kmalloc (shell (main1_cmd mypid)) s of
        Inl e \<Rightarrow> Some (Inl e)
      | Inr (n, s1) \<Rightarrow>
          (case workfunc1 t1 main1_duration readings of
             None \<Rightarrow> None
           | Some polls \<Rightarrow> kernel_cat cat tty (main1_lines mypid ret) block (env s1)))"

text \<open>\<open>echo\<close> of a number writes the number and a newline to the file the output is sent to.\<close>

definition echo_writes :: "(string \<Rightarrow> string) \<Rightarrow> bool" where
  "echo_writes shell = (\<forall>w. list_all (\<lambda>c. is_digit c \<or> c = CHR ''-'') w \<longrightarrow>
     shell (''echo '' @ w @ '' > '' @ ''/proc/mp1/status'') = w @ [newline])"

text \<open>\<open>cat\<close> prints a file that one read delivers and whose next read returns nothing.\<close>

definition copies_file :: "(file_read \<Rightarrow> string kres option) \<Rightarrow> bool" where
  "copies_file cat = (\<forall>rd n bytes off rest off'. rd 0 = Inr (n, bytes, off) \<and> 0 < n \<and> rd off = Inr (0, rest, off') \<longrightarrow>
     cat rd = Some (Inr (take n bytes)))"

section \<open>Facts about the program\<close>

lemma fib_loop_start: "fib_loop 0 1 0 = Some (0, 1, 0)"
  by (simp add: fib_loop.simps)

text \<open>The loop over \<open>times\<close> ends for every argument and computes nothing.\<close>

lemma workfunc_ends: "workfunc n = Some ()"
proof (induction n rule: workfunc.induct)
  case (1 n)
  then show ?case by (cases "0 < n") (simp_all add: workfunc.simps [of n] fib_loop_start)
qed

text \<open>No reply of the module that the reader sees at all is shown beyond its first byte.\<close>

lemma kernel_syscall_shows:
  "kernel_syscall bytes = (if length bytes < 2048 then None else Some (1, cstring [bytes ! 0]))"
proof (cases "length bytes < 2048")
  case False
  then obtain c d cs where b: "bytes = c # d # cs" by (cases bytes; cases "tl bytes") auto
  have "cstring (c # NUL # cs') = cstring [c]" for cs' by (simp add: cstring_def)
  with False b show ?thesis by (simp add: kernel_syscall_def fread_items_def take_Cons')
qed (simp add: kernel_syscall_def fread_items_def)

lemma digits_fmt_d: "list_all (\<lambda>c. is_digit c \<or> c = CHR ''-'') (fmt_d w)"
  using digits_dec_nat by (auto simp: fmt_d_def dec_int_def list_all_iff)

lemma shell_request: "echo_writes shell \<Longrightarrow> shell (main1_cmd p) = userapp_request p"
  using digits_fmt_d [of p] unfolding echo_writes_def main1_cmd_def userapp_request_def by blast

lemma kernel_cat_eq:
  assumes "copies_file cat" and "mp1_inv s" and "cpu_table s \<noteq> []"
    and "length (table_text (cpu_table s)) < mp1_buffsize"
  shows "kernel_cat cat tty printed block s = Some (Inr
    ((if tty then printed @ ''start read the proc/mp1/status'' @ [newline] else []) @ table_text (cpu_table s) @ [NUL]))"
proof -
  let ?text = "table_text (cpu_table s)"
  have len: "12 * length (cpu_table s) \<le> length ?text" by (rule length_table_text_ge)
  then have size: "length (cpu_table s) < 2 ^ 32" using assms(4) by (simp add: mp1_buffsize_def)
  have "0 < length (cpu_table s)" using assms(3) by simp
  with len have pos: "0 < length ?text" by linarith
  have "mp1_myread (Some block) 0 s = Inr (length ?text + 1, ?text @ [NUL], length ?text)"
    using myread_eq [OF assms(2,3) size] assms(4) by simp
  moreover have "mp1_myread (Some block) (length ?text) s = Inr (0, [], length ?text)"
    using pos size_nonzero [OF assms(2,3) size] by (simp add: mp1_myread_def)
  ultimately have "cat (\<lambda>off. mp1_myread (Some block) off s) = Some (Inr (take (length ?text + 1) (?text @ [NUL])))"
    using assms(1) unfolding copies_file_def by (metis add_gr_0 zero_less_one)
  then show ?thesis by (simp add: kernel_cat_def)
qed

text \<open>The user time of \<open>p\<close> that the last of the works has seen.\<close>

fun last_time :: "u32 \<Rightarrow> u64 \<Rightarrow> mp1_event list \<Rightarrow> u64" where
  "last_time p t [] = t"
| "last_time p t (Work utime # ls) = last_time p (case utime p of Some u \<Rightarrow> u | None \<Rightarrow> t) ls"
| "last_time p t (_ # ls) = last_time p t ls"

definition alive :: "u32 \<Rightarrow> mp1_event list \<Rightarrow> bool" where
  "alive p ls = list_all (\<lambda>l. case l of Work utime \<Rightarrow> utime p \<noteq> None | _ \<Rightarrow> True) ls"

lemma refresh_entry: "(p, t) \<in> set es \<Longrightarrow> utime p = Some u \<Longrightarrow> (p, u) \<in> set (refresh utime es)"
  by (induction utime es rule: refresh.induct) (auto split: option.splits)

lemma table_keeps_entry:
  "(p, t) \<in> set es \<Longrightarrow> alive p ls \<Longrightarrow> (p, last_time p t ls) \<in> set (foldl table_step es ls)"
proof (induction ls arbitrary: t es)
  case (Cons l ls)
  show ?case
  proof (cases l)
    case (Work utime)
    then obtain u where "utime p = Some u" using Cons.prems(2) by (auto simp: alive_def)
    with Cons.IH Cons.prems refresh_entry [of p t es utime u] Work show ?thesis by (simp add: alive_def)
  qed (use Cons in \<open>auto simp: alive_def split: sum.split\<close>)
qed simp

lemma workfunc1_returns: "t2 \<in> set readings \<Longrightarrow> dur < t2 - t1 \<Longrightarrow> \<exists>n. workfunc1 t1 dur readings = Some n"
  by (induction readings) auto

section \<open>Properties\<close>

text \<open>
  C18: A whole run of the user program of the CPU-time module, with a shell whose \<open>echo\<close> writes its
  argument and a \<open>cat\<close> that copies a file.  It registers itself, reports the command and its status,
  works until its clock has passed fifteen seconds and prints the proc file.  Meanwhile any
  sequence of registrations, timer callbacks and works may happen, as long as every work finds the
  program alive and the module has at most 49 entries at the end.  Then the run ends, and its
  output is its own three lines, if standard output is a terminal, followed by the table that the
  events of the run give, in which the program has the user time that the last work has seen.
\<close>

theorem userapp_prints_its_time:
  assumes "echo_writes shell" and "copies_file cat"
    and "fst (mp1_init True c) = Inr s0" and "runs mp1_trans s0 ls0 s" and "pc_heap s a = None"
    and "mp1_mywrite (Some a) (userapp_request p) s = Inr (n, s1)"
    and "runs mp1_trans s1 ls (env s1)" and "alive p ls"
    and "t2 \<in> set readings" and "15 < t2 - t1"
    and "length (cpu_table (env s1)) \<le> 49"
  defines "table \<equiv> foldl table_step (cpu_table s @ [(p, 0)]) ls"
  shows "userapp1_main shell cat tty ret block (Some a) p t1 readings env s = Some (Inr
      ((if tty then ''system call:echo '' @ fmt_d p @ '' > /proc/mp1/status'' @ [newline]
          @ ''system call return: '' @ dec_int ret @ [newline] @ ''start read the proc/mp1/status'' @ [newline] else [])
       @ table_text table @ [NUL]))
    \<and> (p, last_time p 0 ls) \<in> set table"
proof -
  have inv: "mp1_inv s" by (rule mp1_run_inv [OF assms(3,4)])
  have s1: "mp1_inv s1" "cpu_table s1 = cpu_table s @ [(p, 0)]"
    using request_registers [OF inv assms(5), of p] assms(6) by auto
  have tab: "cpu_table (env s1) = table"
    unfolding table_def using runs_table [OF assms(7) s1(1)] s1(2) by simp
  have mem: "(p, last_time p 0 ls) \<in> set table"
    unfolding table_def by (rule table_keeps_entry) (use assms(8) in simp_all)
  have "length (table_text table) < mp1_buffsize"
    using length_table_text [of table] assms(11) by (simp add: tab mp1_buffsize_def)
  moreover have "table \<noteq> []" using mem by auto
  ultimately have out: "kernel_cat cat tty (main1_lines p ret) block (env s1) = Some (Inr
      ((if tty then main1_lines p ret @ ''start read the proc/mp1/status'' @ [newline] else [])
       @ table_text table @ [NUL]))"
    using kernel_cat_eq [OF assms(2), of "env s1"] cpu.run_keeps [OF assms(7) s1(1)] tab by simp
  obtain polls where "workfunc1 t1 main1_duration readings = Some polls"
    using workfunc1_returns [OF assms(9)] assms(10) by (auto simp: main1_duration_def)
  with assms(6) out have "userapp1_main shell cat tty ret block (Some a) p t1 readings env s = Some (Inr
      ((if tty then main1_lines p ret @ ''start read the proc/mp1/status'' @ [newline] else [])
       @ table_text table @ [NUL]))"
    by (simp add: userapp1_main_def shell_request [OF assms(1)])
  with mem show ?thesis by (simp add: main1_lines_def main1_cmd_def)
qed

text \<open>One timer callback and one work while the program computes.\<close>

definition demo1_env :: "(u32 \<rightharpoonup> u64) \<Rightarrow> mp1 \<Rightarrow> mp1" where
  "demo1_env utime s = (case wq_callback utime (mp1_tm_callback True s) of Inl e \<Rightarrow> s | Inr t \<Rightarrow> t)"

lemma demo1_env_runs:
  assumes "mp1_inv s"
  shows "runs mp1_trans s [Timer True, Work utime] (demo1_env utime s)"
proof -
  let ?s = "mp1_tm_callback True s"
  have inv: "mp1_inv ?s" and w: "0 < works ?s" and arm: "tm_armed s"
    using assms by (simp_all add: mp1_tm_callback_def mp1_inv_def)
  obtain t where t: "wq_callback utime ?s = Inr t" using wq_callback_spec [OF inv] by blast
  then have "demo1_env utime s = t" by (simp add: demo1_env_def)
  with runs_two [of mp1_trans, OF mp1_timer [OF arm, of True] mp1_work [OF w t]] show ?thesis by simp
qed

text \<open>A shell that knows this one command, and a \<open>cat\<close> that makes two reads.\<close>

definition demo1_shell :: "string \<Rightarrow> string" where
  "demo1_shell cmd = takeWhile (\<lambda>c. c \<noteq> CHR '' '') (drop 5 cmd) @ [newline]"

definition demo1_cat :: "file_read \<Rightarrow> string kres option" where
  "demo1_cat rd =
     (case rd 0 of
        Inl e \<Rightarrow> Some (Inl e)
      | Inr (n, bytes, off) \<Rightarrow>
          if n = 0 then Some (Inr [])
          else (case rd off of
                  Inl e \<Rightarrow> Some (Inl e)
                | Inr (n', rest, off') \<Rightarrow> if n' = 0 then Some (Inr (take n bytes)) else None))"

lemma demo1_shell_echo: "echo_writes demo1_shell"
  unfolding echo_writes_def
proof (intro allI impI)
  fix w
  assume "list_all (\<lambda>c. is_digit c \<or> c = CHR ''-'') w"
  then have "\<forall>c \<in> set w. c \<noteq> CHR '' ''" by (auto simp: list_all_iff)
  then show "demo1_shell (''echo '' @ w @ '' > '' @ ''/proc/mp1/status'') = w @ [newline]"
    unfolding demo1_shell_def by (simp add: takeWhile_append)
qed

lemma demo1_cat_copies: "copies_file demo1_cat"
  by (auto simp: copies_file_def demo1_cat_def)

theorem userapp_prints_its_time_witness:
  "userapp1_main demo1_shell demo1_cat True 0 (replicate 2048 NUL) (Some 0) 5 100 [100, 110, 116]
     (demo1_env [5 \<mapsto> 77]) demo1_start =
   Some (Inr (''system call:echo '' @ fmt_d 5 @ '' > /proc/mp1/status'' @ [newline] @ ''system call return: ''
     @ dec_int 0 @ [newline] @ ''start read the proc/mp1/status'' @ [newline] @ table_text [(5, 77)] @ [NUL]))"
proof -
  have h: "mp1_inv demo1_start" by (rule mp1_run_inv [OF demo1_init runs_nil])
  have fresh: "pc_heap demo1_start 0 = None" by (simp add: demo1_start_def)
  obtain s1 where s1: "mp1_mywrite (Some 0) (userapp_request 5) demo1_start = Inr (Inr (length (userapp_request 5)), s1)"
    "mp1_inv s1" "cpu_table s1 = cpu_table demo1_start @ [(5, 0)]"
    using request_registers [OF h fresh, of 5] by blast
  note r = demo1_env_runs [OF s1(2), of "[5 \<mapsto> 77]"]
  have al: "alive 5 [Timer True, Work [5 \<mapsto> 77]]" by (simp add: alive_def)
  have t: "(116 :: int) \<in> set [100, 110, 116]" "15 < (116 :: int) - 100" by simp_all
  have empty: "cpu_table demo1_start = []" by (simp add: cpu_table_def demo1_start_def)
  have "length (cpu_table (demo1_env [5 \<mapsto> 77] s1)) \<le> 49"
    using runs_table [OF r s1(2)] by (simp add: s1(3) empty)
  from userapp_prints_its_time [where env = "demo1_env [5 \<mapsto> 77]", OF demo1_shell_echo demo1_cat_copies demo1_init runs_nil fresh s1(1) r al t this] show ?thesis
    by (simp add: empty)
qed

end
