(* ===== verification/MP2_Admission.thy ===== *)
theory MP2_Admission
  imports Prelude Complex_Main
begin

text \<open>
  Admission control of the rate-monotonic scheduler (\<open>MP2/mp2.c\<close>, \<open>admission_control\<close>).  The
  module keeps the total utilisation of the registered tasks as a fraction of two \<open>unsigned long\<close>
  globals, \<open>numerator / denominator\<close>, and admits a task as long as the sum stays within 0.693,
  the limit of the Liu and Layland bound.

  The function is modelled at the widths of the C code: \<open>computation * 1000\<close> and \<open>693 * period\<close>
  are 32-bit products, everything that involves one of the globals is a 64-bit product, and all of
  them wrap around.  The locale \<open>ledger\<close> states what the scheduler relies on, that the books
  balance: the recorded utilisation is the sum of the demands of the admitted tasks and never
  exceeds the limit.  \<open>admission_control\<close> is an instance of it as long as no product wraps.
\<close>

section \<open>The ledger contract\<close>

datatype 't ledger_op = Admit 't | Release 't

locale ledger =
  fixes valid :: "'l \<Rightarrow> bool"
    and fits_admit :: "'t \<Rightarrow> 'l \<Rightarrow> bool"
    and fits_release :: "'t \<Rightarrow> 'l \<Rightarrow> bool"
    and admit :: "'t \<Rightarrow> 'l \<Rightarrow> 'l option"
    and release :: "'t \<Rightarrow> 'l \<Rightarrow> 'l"
    and total :: "'l \<Rightarrow> real"
    and demand :: "'t \<Rightarrow> real"
    and cap :: real
  assumes admit_Some: "valid l \<Longrightarrow> fits_admit t l \<Longrightarrow> admit t l = Some l' \<Longrightarrow>
      valid l' \<and> total l' = total l + demand t \<and> total l' \<le> cap"
    and admit_None: "valid l \<Longrightarrow> fits_admit t l \<Longrightarrow> admit t l = None \<Longrightarrow> cap < total l + demand t"
    and release_total: "valid l \<Longrightarrow> fits_release t l \<Longrightarrow> demand t \<le> total l \<Longrightarrow>
      valid (release t l) \<and> total (release t l) = total l - demand t"
    and demand_nonneg: "0 \<le> demand t"
begin

text \<open>The ledger together with the list of tasks that are currently admitted.\<close>

fun step :: "'t ledger_op \<Rightarrow> 'l \<times> 't list \<Rightarrow> 'l \<times> 't list" where
  "step (Admit t) (l, ts) = (case admit t l of None \<Rightarrow> (l, ts) | Some l' \<Rightarrow> (l', ts @ [t]))"
| "step (Release t) (l, ts) = (if t \<in> set ts then (release t l, remove1 t ts) else (l, ts))"

fun fits :: "'t ledger_op \<Rightarrow> 'l \<Rightarrow> bool" where
  "fits (Admit t) l = fits_admit t l"
| "fits (Release t) l = fits_release t l"

fun run :: "'t ledger_op list \<Rightarrow> 'l \<times> 't list \<Rightarrow> 'l \<times> 't list" where
  "run [] s = s"
| "run (x # xs) s = run xs (step x s)"

fun fits_run :: "'t ledger_op list \<Rightarrow> 'l \<times> 't list \<Rightarrow> bool" where
  "fits_run [] s = True"
| "fits_run (x # xs) s = (fits x (fst s) \<and> fits_run xs (step x s))"

definition balanced :: "'l \<times> 't list \<Rightarrow> bool" where
  "balanced s = (valid (fst s) \<and> total (fst s) = sum_list (map demand (snd s))
                 \<and> total (fst s) \<le> cap)"

lemma demand_le_sum: "t \<in> set ts \<Longrightarrow> demand t \<le> sum_list (map demand ts)"
  using demand_nonneg by (intro member_le_sum_list) auto

lemma step_balanced:
  assumes "balanced s" and "fits x (fst s)"
  shows "balanced (step x s)"
proof (cases x)
  case (Admit t)
  with assms admit_Some [of "fst s" t] show ?thesis
    by (cases s) (auto simp: balanced_def split: option.splits)
next
  case (Release t)
  obtain l ts where s: "s = (l, ts)" by (cases s)
  show ?thesis
  proof (cases "t \<in> set ts")
    case True
    have "demand t \<le> total l"
      using assms(1) s True demand_le_sum by (simp add: balanced_def)
    then have "valid (release t l) \<and> total (release t l) = total l - demand t"
      using release_total assms Release s by (simp add: balanced_def)
    then show ?thesis
      using assms(1) s Release True demand_nonneg [of t]
      by (simp add: balanced_def sum_list_remove1)
  next
    case False
    with assms(1) s Release show ?thesis by simp
  qed
qed

lemma run_balanced: "balanced s \<Longrightarrow> fits_run xs s \<Longrightarrow> balanced (run xs s)"
proof (induction xs arbitrary: s)
  case (Cons x xs)
  then show ?case by (simp add: step_balanced)
qed simp

end

section \<open>The function of the module\<close>

text \<open>
  The result is the C return value followed by the new values of the globals.  In the branch for
  \<open>flag = 1\<close> the return value stays 1 and nobody looks at it.
\<close>

definition admission_control ::
  "u32 \<Rightarrow> u32 \<Rightarrow> u32 \<Rightarrow> u32 \<Rightarrow> u64 \<Rightarrow> u64 \<Rightarrow> u32 \<times> u64 \<times> u64" where
  "admission_control period computation pid flag numerator denominator =
    (if flag = 1 then
       (if numerator * ucast period \<le> ucast computation * denominator
        then (1, 0, denominator)
        else (1, numerator * ucast period - ucast computation * denominator,
                 denominator * ucast period))
     else if numerator = 0 then
       (if computation * 1000 \<le> 693 * period
        then (0, ucast computation, ucast period)
        else (1, numerator, denominator))
     else
       (let curr_den = denominator * ucast period;
            curr_n = numerator * ucast period + ucast computation * denominator
        in if curr_n * 1000 \<le> 693 * curr_den
           then (0, curr_n, curr_den)
           else (1, numerator, denominator)))"

section \<open>What the fraction stands for\<close>

definition utilisation :: "u64 \<times> u64 \<Rightarrow> real" where
  "utilisation nd = real (unat (fst nd)) / real (unat (snd nd))"

text \<open>A task is the pair of its period and its computation time.\<close>

definition task_load :: "u32 \<times> u32 \<Rightarrow> real" where
  "task_load t = real (unat (snd t)) / real (unat (fst t))"

definition frac_valid :: "u64 \<times> u64 \<Rightarrow> bool" where
  "frac_valid nd = (fst nd = 0 \<or> snd nd \<noteq> 0)"

text \<open>No product of the admission test wraps around.\<close>

definition admit_fits :: "u32 \<times> u32 \<Rightarrow> u64 \<times> u64 \<Rightarrow> bool" where
  "admit_fits t nd =
    (fst t \<noteq> 0 \<and>
     (if fst nd = 0 then unat (snd t) * 1000 < 2 ^ 32 \<and> 693 * unat (fst t) < 2 ^ 32
      else (unat (fst nd) * unat (fst t) + unat (snd t) * unat (snd nd)) * 1000 < 2 ^ 64
           \<and> 693 * (unat (snd nd) * unat (fst t)) < 2 ^ 64))"

definition release_fits :: "u32 \<times> u32 \<Rightarrow> u64 \<times> u64 \<Rightarrow> bool" where
  "release_fits t nd =
    (fst t \<noteq> 0 \<and> unat (fst nd) * unat (fst t) < 2 ^ 64
     \<and> unat (snd t) * unat (snd nd) < 2 ^ 64 \<and> unat (snd nd) * unat (fst t) < 2 ^ 64)"

text \<open>The two ways the module calls \<open>admission_control\<close>.\<close>

definition ac_admit :: "u32 \<times> u32 \<Rightarrow> u64 \<times> u64 \<Rightarrow> (u64 \<times> u64) option" where
  "ac_admit t nd =
    (let r = admission_control (fst t) (snd t) 0 0 (fst nd) (snd nd)
     in if fst r = 0 then Some (snd r) else None)"

definition ac_release :: "u32 \<times> u32 \<Rightarrow> u64 \<times> u64 \<Rightarrow> u64 \<times> u64" where
  "ac_release t nd = snd (admission_control (fst t) (snd t) 0 1 (fst nd) (snd nd))"

text \<open>The pid plays no part, and a refused task leaves the globals alone.\<close>

lemma admission_control_release:
  "admission_control P C pid 1 n d = (1, ac_release (P, C) (n, d))"
  by (simp add: ac_release_def admission_control_def)

lemma admission_control_admit:
  "admission_control P C pid 0 n d =
     (case ac_admit (P, C) (n, d) of None \<Rightarrow> (1, n, d) | Some nd \<Rightarrow> (0, nd))"
  by (simp add: ac_admit_def admission_control_def Let_def)

section \<open>Exactness without wrap-around\<close>

lemma unat_pos: "x \<noteq> 0 \<Longrightarrow> 0 < unat (x :: 'a :: len word)"
  by (simp add: unat_gt_0)

lemma frac_le_limit:
  assumes "0 < (d :: nat)"
  shows "real n / real d \<le> 693 / 1000 \<longleftrightarrow> n * 1000 \<le> 693 * d"
proof -
  have "real n / real d \<le> 693 / 1000 \<longleftrightarrow> real (n * 1000) \<le> real (693 * d)"
    using assms by (simp add: field_simps)
  then show ?thesis by (simp only: of_nat_le_iff)
qed

lemma admit_first_word:
  fixes p c :: u32
  assumes "unat c * 1000 < 2 ^ 32" and "693 * unat p < 2 ^ 32"
  shows "c * 1000 \<le> 693 * p \<longleftrightarrow> unat c * 1000 \<le> 693 * unat p"
  using assms unat_mult_fits [of c 1000] unat_mult_fits [of 693 p]
  by (simp add: word_le_nat_alt)

lemma admit_next_words:
  fixes n d :: u64 and p c :: u32
  assumes "(unat n * unat p + unat c * unat d) * 1000 < 2 ^ 64"
    and "693 * (unat d * unat p) < 2 ^ 64"
  shows "unat (n * ucast p + ucast c * d) = unat n * unat p + unat c * unat d"
    and "unat (d * ucast p) = unat d * unat p"
    and "(n * ucast p + ucast c * d) * 1000 \<le> 693 * (d * ucast p) \<longleftrightarrow>
      (unat n * unat p + unat c * unat d) * 1000 \<le> 693 * (unat d * unat p)"
proof -
  have np: "unat (n * ucast p) = unat n * unat p"
    using assms(1) unat_mult_fits [of n "ucast p"] by simp
  have cd: "unat (ucast c * d) = unat c * unat d"
    using assms(1) unat_mult_fits [of "ucast c" d] by simp
  show sum: "unat (n * ucast p + ucast c * d) = unat n * unat p + unat c * unat d"
    using assms(1) unat_add_fits [of "n * ucast p" "ucast c * d"] np cd by simp
  show den: "unat (d * ucast p) = unat d * unat p"
    using assms(2) unat_mult_fits [of d "ucast p"] by simp
  have "unat ((n * ucast p + ucast c * d) * 1000) = (unat n * unat p + unat c * unat d) * 1000"
    using assms(1) unat_mult_fits [of "n * ucast p + ucast c * d" 1000] sum by simp
  moreover have "unat (693 * (d * ucast p)) = 693 * (unat d * unat p)"
    using assms(2) unat_mult_fits [of 693 "d * ucast p"] den by simp
  ultimately show "(n * ucast p + ucast c * d) * 1000 \<le> 693 * (d * ucast p) \<longleftrightarrow>
      (unat n * unat p + unat c * unat d) * 1000 \<le> 693 * (unat d * unat p)"
    by (simp add: word_le_nat_alt)
qed

lemma add_fractions:
  assumes "0 < (d :: nat)" and "0 < (p :: nat)"
  shows "real (n * p + c * d) / real (d * p) = real n / real d + real c / real p"
  using assms by (simp add: field_simps)

lemma sum_le_limit:
  assumes "0 < (d :: nat)" and "0 < (p :: nat)"
  shows "real n / real d + real c / real p \<le> 693 / 1000 \<longleftrightarrow> (n * p + c * d) * 1000 \<le> 693 * (d * p)"
  using frac_le_limit [of "d * p" "n * p + c * d"] assms unfolding add_fractions [OF assms, symmetric]
  by simp

lemma ac_admit_exact:
  assumes valid: "frac_valid nd" and fits: "admit_fits t nd"
  shows "ac_admit t nd =
      (if utilisation nd + task_load t \<le> 693 / 1000
       then Some (if fst nd = 0 then (ucast (snd t), ucast (fst t))
                  else (fst nd * ucast (fst t) + ucast (snd t) * snd nd, snd nd * ucast (fst t)))
       else None)" (is ?shape)
    and "ac_admit t nd = Some nd' \<Longrightarrow>
      frac_valid nd' \<and> utilisation nd' = utilisation nd + task_load t" (is "_ \<Longrightarrow> ?sum")
proof -
  obtain n d p c where nd: "nd = (n, d)" and t: "t = (p, c)"
    by (cases nd, cases t) auto
  have p: "0 < unat p" using fits t by (simp add: admit_fits_def unat_pos)
  show shape: ?shape
  proof (cases "n = 0")
    case True
    then show ?thesis
      using fits nd t p admit_first_word [of c p] frac_le_limit [of "unat p" "unat c"]
      by (simp add: ac_admit_def admission_control_def admit_fits_def utilisation_def
          task_load_def)
  next
    case False
    then have d: "0 < unat d" using valid nd by (simp add: frac_valid_def unat_pos)
    have fit: "(unat n * unat p + unat c * unat d) * 1000 < 2 ^ 64"
      "693 * (unat d * unat p) < 2 ^ 64"
      using fits nd t False by (simp_all add: admit_fits_def)
    have "utilisation nd + task_load t \<le> 693 / 1000 \<longleftrightarrow>
        (unat n * unat p + unat c * unat d) * 1000 \<le> 693 * (unat d * unat p)"
      unfolding nd t utilisation_def task_load_def fst_conv snd_conv by (rule sum_le_limit [OF d p])
    then show ?thesis
      using False admit_next_words(3) [OF fit]
      by (simp add: nd t ac_admit_def admission_control_def Let_def)
  qed
  assume "ac_admit t nd = Some nd'"
  then have nd': "nd' = (if n = 0 then (ucast c, ucast p)
      else (n * ucast p + ucast c * d, d * ucast p))"
    using shape by (simp add: nd t split: if_splits)
  show ?sum
  proof (cases "n = 0")
    case True
    have "(ucast p :: u64) \<noteq> 0" using p by (metis unat_ucast_64 unat_0 less_irrefl)
    with True show ?thesis by (simp add: nd nd' t frac_valid_def utilisation_def task_load_def)
  next
    case False
    then have d: "0 < unat d" using valid nd by (simp add: frac_valid_def unat_pos)
    have fit: "(unat n * unat p + unat c * unat d) * 1000 < 2 ^ 64"
      "693 * (unat d * unat p) < 2 ^ 64"
      using fits nd t False by (simp_all add: admit_fits_def)
    note words = admit_next_words(1,2) [OF fit]
    have "d * ucast p \<noteq> 0" using words(2) p d by (metis mult_pos_pos unat_0 less_irrefl)
    then show ?thesis
      using False words add_fractions [OF d p, of "unat n" "unat c"]
      by (simp add: nd nd' t frac_valid_def utilisation_def task_load_def)
  qed
qed

lemma frac_le_cross:
  assumes "0 < (p :: nat)" and "0 < (d :: nat)"
  shows "real c / real p \<le> real n / real d \<longleftrightarrow> c * d \<le> n * p"
proof -
  have "real c / real p \<le> real n / real d \<longleftrightarrow> real (c * d) \<le> real (n * p)"
    using assms by (simp add: field_simps)
  then show ?thesis by (simp only: of_nat_le_iff)
qed

lemma sub_fractions:
  assumes "0 < (p :: nat)" and "0 < (d :: nat)" and "c * d \<le> n * p"
  shows "real (n * p - c * d) / real (d * p) = real n / real d - real c / real p"
  using assms by (simp add: of_nat_diff field_simps)

lemma task_load_nonneg: "0 \<le> task_load t"
  unfolding task_load_def by (intro divide_nonneg_nonneg of_nat_0_le_iff)

lemma ac_release_exact:
  assumes valid: "frac_valid nd" and fits: "release_fits t nd"
    and enough: "task_load t \<le> utilisation nd"
  shows "frac_valid (ac_release t nd) \<and> utilisation (ac_release t nd) = utilisation nd - task_load t"
proof -
  obtain n d p c where nd: "nd = (n, d)" and t: "t = (p, c)"
    by (cases nd, cases t) auto
  have p: "0 < unat p" using fits t by (simp add: release_fits_def unat_pos)
  have np: "unat (n * ucast p) = unat n * unat p"
    using fits unat_mult_fits [of n "ucast p"] by (simp add: nd t release_fits_def)
  have cd: "unat (ucast c * d) = unat c * unat d"
    using fits unat_mult_fits [of "ucast c" d] by (simp add: nd t release_fits_def)
  have dp: "unat (d * ucast p) = unat d * unat p"
    using fits unat_mult_fits [of d "ucast p"] by (simp add: nd t release_fits_def)
  show ?thesis
  proof (cases "d = 0")
    case True
    then have "n = 0" using valid nd by (simp add: frac_valid_def)
    moreover from this have "task_load t = 0"
      using enough task_load_nonneg [of t] by (simp add: nd utilisation_def)
    ultimately show ?thesis
      by (simp add: nd t ac_release_def admission_control_def frac_valid_def utilisation_def)
  next
    case False
    then have d: "0 < unat d" by (rule unat_pos)
    have le: "unat c * unat d \<le> unat n * unat p"
      using enough frac_le_cross [OF p d] by (simp only: nd t utilisation_def task_load_def fst_conv snd_conv)
    have sub: "real (unat n * unat p - unat c * unat d) / real (unat d * unat p) =
        utilisation nd - task_load t"
      unfolding nd t utilisation_def task_load_def fst_conv snd_conv
      by (rule sub_fractions [OF p d le])
    show ?thesis
    proof (cases "n * ucast p \<le> ucast c * d")
      case True
      then have "unat n * unat p \<le> unat c * unat d"
        by (simp add: word_le_nat_alt np cd)
      with True sub show ?thesis
        by (simp add: nd t ac_release_def admission_control_def frac_valid_def utilisation_def)
    next
      case False
      then have less: "ucast c * d \<le> n * ucast p" by simp
      have diff: "unat (n * ucast p - ucast c * d) = unat n * unat p - unat c * unat d"
        using less by (simp add: unat_sub np cd)
      have new: "ac_release t nd = (n * ucast p - ucast c * d, d * ucast p)"
        using False by (simp add: nd t ac_release_def admission_control_def)
      have "d * ucast p \<noteq> 0" using dp p d by (metis mult_pos_pos unat_0 less_irrefl)
      moreover have "utilisation (ac_release t nd) = utilisation nd - task_load t"
        unfolding new by (subst utilisation_def) (simp only: fst_conv snd_conv diff dp sub)
      ultimately show ?thesis by (simp add: new frac_valid_def)
    qed
  qed
qed

interpretation adm: ledger frac_valid admit_fits release_fits ac_admit ac_release utilisation
  task_load "693 / 1000"
proof unfold_locales
  fix l :: "u64 \<times> u64" and t :: "u32 \<times> u32" and l'
  assume "frac_valid l" "admit_fits t l"
  note exact = ac_admit_exact [OF this]
  show "frac_valid l' \<and> utilisation l' = utilisation l + task_load t \<and> utilisation l' \<le> 693 / 1000"
    if "ac_admit t l = Some l'"
    using exact(2) [OF that] exact(1) that by (metis option.distinct(1))
  show "693 / 1000 < utilisation l + task_load t" if "ac_admit t l = None"
    using exact(1) that by (metis option.distinct(1) not_le)
next
  fix l :: "u64 \<times> u64" and t :: "u32 \<times> u32"
  assume "frac_valid l" "release_fits t l" "task_load t \<le> utilisation l"
  then show "frac_valid (ac_release t l) \<and> utilisation (ac_release t l) = utilisation l - task_load t"
    by (rule ac_release_exact)
next
  show "0 \<le> task_load t" for t :: "u32 \<times> u32"
    by (rule task_load_nonneg)
qed

section \<open>The limit and the Liu and Layland bound\<close>

text \<open>
  A set of \<open>n\<close> periodic tasks is schedulable by the rate-monotonic policy when its utilisation is
  at most \<open>n * (2 powr (1/n) - 1)\<close>, a bound that decreases towards \<open>ln 2\<close>.  The module's constant
  lies below all of them.
\<close>

lemma exp_limit: "exp (693 / 1000 :: real) \<le> 2"
proof -
  obtain t :: real where t: "\<bar>t\<bar> \<le> \<bar>693 / 1000\<bar>"
    and e: "exp (693 / 1000) = (\<Sum>m<8. (693 / 1000) ^ m / fact m) + exp t / fact 8 * (693 / 1000) ^ 8"
    using Maclaurin_exp_le [of "693 / 1000" 8] by blast
  have "exp t \<le> exp 1" using t by simp
  also have "exp (1 :: real) \<le> 3" by (rule exp_le)
  finally have "exp t / fact 8 * (693 / 1000 :: real) ^ 8 \<le> 3 / fact 8 * (693 / 1000) ^ 8"
    by (intro mult_right_mono divide_right_mono) auto
  moreover have "(\<Sum>m<8. (693 / 1000 :: real) ^ m / fact m) + 3 / fact 8 * (693 / 1000) ^ 8 \<le> 2"
    by (simp add: lessThan_nat_numeral lessThan_Suc fact_numeral power_divide)
  ultimately show ?thesis using e by linarith
qed

lemma limit_le_liu_layland:
  assumes "0 < n"
  shows "693 / 1000 \<le> real n * (2 powr (1 / real n) - 1)"
proof -
  have "693 / 1000 \<le> ln (2 :: real)" using exp_limit ln_ge_iff [of 2 "693 / 1000"] by linarith
  also have "ln 2 = real n * (ln 2 / real n)" using assms by simp
  also have "\<dots> \<le> real n * (exp (ln 2 / real n) - 1)"
    using exp_ge_add_one_self [of "ln 2 / real n"] by (intro mult_left_mono) (linarith, simp)
  finally show ?thesis by (simp add: powr_def)
qed

end
