(* ===== verification/MP2.thy ===== *)
theory MP2
  imports KList MP2_Admission
begin

text \<open>
  The rate-monotonic scheduler module (\<open>MP2/mp2.c\<close>): the task list, registration, yielding,
  deregistration, the timer callback, the dispatcher thread, and loading and unloading.

  The globals of the module are the record \<open>mp2\<close>.  Task structs live in the slab cache, a store
  from addresses to \<open>mp2_task_struct\<close>; \<open>HEAD\<close> is the list of their addresses and \<open>curr_tsk\<close> a
  pointer into it, so that aliasing and dangling pointers are visible.  Calls into the kernel
  (\<open>wake_up_process\<close>, \<open>sched_setscheduler\<close>, \<open>set_task_state\<close>, \<open>schedule\<close>, \<dots>) have no effect on
  the module's own state and are recorded, in order, in \<open>klog\<close>; what they do to the process that
  calls is read off that record (\<open>blocked\<close> in \<open>MP2_Session\<close>).  They do look at the task they are
  handed: \<open>dispatch_kth\<close> is whatever \<open>kthread_create\<close> returned, a thread, \<open>NULL\<close> or an error pointer,
  and \<open>exited\<close> is the kernel's set of tasks whose process has ended and whose \<open>task_struct\<close> is freed,
  so that a call on a missing thread or on the task of a dead process is a fault.  The module takes
  no reference to the tasks it points to.  A timer is its pending expiry time, if any.  What the kernel decides is a parameter: the clock \<open>jiffies\<close>, \<open>USER_HZ\<close>, the
  address the slab allocator returns, and the table \<open>pid_task\<close> from pids to tasks.  The module is
  compiled with \<open>LOCK_FREE\<close>, so its \<open>spin_lock\<close> and \<open>spin_unlock\<close> expand to nothing.
\<close>

section \<open>Data\<close>

datatype mp2_task_state = SLEEPING | READY | RUNNING

type_synonym ktask = nat

datatype sched_policy = SCHED_NORMAL | SCHED_FIFO

datatype kcall =
    Wake_up_process ktask
  | Wake_up_dispatch
  | Set_task_uninterruptible ktask
  | Sched_setscheduler ktask sched_policy nat
  | Set_current_interruptible
  | Schedule
  | Proc_mkdir | Proc_create | Proc_remove_file | Proc_remove_dir
  | Kmem_cache_create | Kmem_cache_destroy
  | Kthread_create | Kthread_stop

text \<open>What \<open>kthread_create\<close> returns: \<open>NULL\<close>, an error pointer, or a thread.\<close>

datatype kth_ptr = Kth_null | Kth_err | Kth_thread

record mp2_task_struct =
  ts_tsk :: "ktask option"
  ts_tm :: "u64 option"
  ts_period :: u32
  ts_computation :: u32
  ts_pid :: u32
  ts_state :: mp2_task_state
  ts_next_period :: u64

record mp2 =
  HEAD :: "addr list"
  slab :: "addr \<rightharpoonup> mp2_task_struct"
  curr_tsk :: "addr option"
  numerator :: u64
  denominator :: u64
  mycache :: bool
  dispatch_kth :: kth_ptr
  exited :: "ktask set"
  klog :: "kcall list"

definition INT_MAX :: u32 where
  "INT_MAX = 0x7FFFFFFF"

definition emit :: "kcall \<Rightarrow> mp2 \<Rightarrow> mp2" where
  "emit c s = s\<lparr>klog := klog s @ [c]\<rparr>"

definition set_node :: "addr \<Rightarrow> mp2_task_struct \<Rightarrow> mp2 \<Rightarrow> mp2" where
  "set_node a t s = s\<lparr>slab := (slab s)(a \<mapsto> t)\<rparr>"

definition link_task :: "addr \<Rightarrow> mp2_task_struct \<Rightarrow> mp2 \<Rightarrow> mp2" where
  "link_task a t s = s\<lparr>HEAD := list_add_tail a (HEAD s), slab := (slab s)(a \<mapsto> t)\<rparr>"

definition unlink_task :: "addr \<Rightarrow> mp2 \<Rightarrow> mp2" where
  "unlink_task a s = s\<lparr>HEAD := list_del a (HEAD s), slab := (slab s)(a := None)\<rparr>"

text \<open>\<open>wake_up_process(dispatch_kth)\<close> and \<open>kthread_stop(dispatch_kth)\<close>: the call follows the pointer.\<close>

definition on_dispatch_kth :: "kcall \<Rightarrow> mp2 \<Rightarrow> mp2 kres" where
  "on_dispatch_kth c s =
     (case dispatch_kth s of
        Kth_null \<Rightarrow> Inl NullDeref
      | Kth_err \<Rightarrow> Inl ErrPtrDeref
      | Kth_thread \<Rightarrow> Inr (emit c s))"

definition wake_dispatch :: "mp2 \<Rightarrow> mp2 kres" where
  "wake_dispatch s = on_dispatch_kth Wake_up_dispatch s"

text \<open>The task a struct points to, as a kernel function that is handed the pointer reaches it.\<close>

definition task_ref :: "mp2 \<Rightarrow> ktask option \<Rightarrow> ktask kres" where
  "task_ref s p =
     bindK (nonnull p) (\<lambda>k. if k \<in> exited s then Inl UseAfterFree else Inr k)"

text \<open>The lookup of a pid finds no task once the process has ended.\<close>

definition pid_now :: "(u32 \<Rightarrow> ktask option) \<Rightarrow> mp2 \<Rightarrow> u32 \<Rightarrow> ktask option" where
  "pid_now pid_task s nr =
     (case pid_task nr of None \<Rightarrow> None | Some k \<Rightarrow> if k \<in> exited s then None else Some k)"

section \<open>Operations\<close>

definition mp2_find_task_by_pid :: "(u32 \<Rightarrow> ktask option) \<Rightarrow> u32 \<Rightarrow> ktask option" where
  "mp2_find_task_by_pid pid_task nr = pid_task nr"

text \<open>\<open>tm_callback\<close>: the timer of the task at address \<open>data\<close> has expired.\<close>

definition mp2_tm_callback :: "addr \<Rightarrow> mp2 \<Rightarrow> mp2 kres" where
  "mp2_tm_callback data s =
     bindK (deref (slab s) data) (\<lambda>tsk.
       wake_dispatch
         (if ts_state tsk = SLEEPING then set_node data (tsk\<lparr>ts_state := READY\<rparr>) s else s))"

definition freeone :: "addr \<Rightarrow> mp2 \<Rightarrow> mp2 kres" where
  "freeone itr s = bindK (deref (slab s) itr) (\<lambda>_. Inr (unlink_task itr s))"

definition new_task ::
  "(u32 \<Rightarrow> ktask option) \<Rightarrow> u32 \<Rightarrow> u32 \<Rightarrow> u32 \<Rightarrow> mp2_task_struct" where
  "new_task pid_task pid period computation =
     \<lparr>ts_tsk = mp2_find_task_by_pid pid_task pid, ts_tm = None, ts_period = period,
      ts_computation = computation, ts_pid = pid, ts_state = SLEEPING, ts_next_period = 0\<rparr>"

text \<open>\<open>kmem_cache_alloc\<close> follows the pointer to the cache, which \<open>init_slab\<close> does not check.\<close>

definition cache_alloc_from :: "mp2 \<Rightarrow> addr option \<Rightarrow> addr option kres" where
  "cache_alloc_from s cache_alloc = (if mycache s then Inr cache_alloc else Inl NullDeref)"

definition reg_entry ::
  "(u32 \<Rightarrow> ktask option) \<Rightarrow> addr option \<Rightarrow> u32 \<Rightarrow> u32 \<Rightarrow> u32 \<Rightarrow> mp2 \<Rightarrow> (u32 \<times> mp2) kres" where
  "reg_entry pid_task cache_alloc pid period computation s =
     (case admission_control period computation pid 0 (numerator s) (denominator s) of
        (r, n, d) \<Rightarrow>
          let s1 = s\<lparr>numerator := n, denominator := d\<rparr> in
          if r \<noteq> 0 then Inr (1, s1)
          else bindK (cache_alloc_from s1 cache_alloc) (\<lambda>tsk.
            bindK (nonnull tsk) (\<lambda>a.
              Inr (0, link_task a (new_task pid_task pid period computation) s1))))"

definition find_by_pid :: "mp2 \<Rightarrow> u32 \<Rightarrow> addr option kres" where
  "find_by_pid s pid = find_entry (slab s) (\<lambda>t. ts_pid t = pid) (HEAD s)"

text \<open>\<open>if (tsk == curr_tsk) curr_tsk = NULL\<close>\<close>

definition clear_curr :: "addr \<Rightarrow> mp2 \<Rightarrow> mp2" where
  "clear_curr a s = (if curr_tsk s = Some a then s\<lparr>curr_tsk := None\<rparr> else s)"

definition set_task_sleep :: "u32 \<Rightarrow> mp2 \<Rightarrow> (u32 \<times> mp2) kres" where
  "set_task_sleep pid s =
     bindK (find_by_pid s pid) (\<lambda>p. case p of
       None \<Rightarrow> Inr (0, s)
     | Some a \<Rightarrow>
         let s1 = clear_curr a s in
         bindK (deref (slab s1) a) (\<lambda>t.
         bindK (task_ref s1 (ts_tsk t)) (\<lambda>k.
           Inr (1, emit (Set_task_uninterruptible k)
                    (set_node a (t\<lparr>ts_state := SLEEPING\<rparr>) s1)))))"

text \<open>The period in ticks, \<open>(period * USER_HZ) / 1000\<close>, is computed on \<open>unsigned int\<close>.\<close>

definition period_ticks :: "u32 \<Rightarrow> u32 \<Rightarrow> u64" where
  "period_ticks USER_HZ period = ucast ((period * USER_HZ) div 1000)"

definition mod_timer :: "addr \<Rightarrow> u64 \<Rightarrow> mp2 \<Rightarrow> mp2 kres" where
  "mod_timer a e s = bindK (deref (slab s) a) (\<lambda>t. Inr (set_node a (t\<lparr>ts_tm := Some e\<rparr>) s))"

definition add_period :: "u32 \<Rightarrow> addr \<Rightarrow> mp2 \<Rightarrow> mp2 kres" where
  "add_period USER_HZ a s =
     bindK (deref (slab s) a) (\<lambda>t.
       Inr (set_node a (t\<lparr>ts_next_period := ts_next_period t + period_ticks USER_HZ (ts_period t)\<rparr>) s))"

text \<open>The trace message at the head of \<open>yield_entry\<close> reads the pid of the current task.\<close>

definition trace_curr :: "mp2 \<Rightarrow> unit kres" where
  "trace_curr s = (case curr_tsk s of None \<Rightarrow> Inr () | Some c \<Rightarrow> bindK (deref (slab s) c) (\<lambda>_. Inr ()))"

text \<open>
  The final \<open>schedule()\<close> is recorded in \<open>klog\<close>; whether it keeps the caller from returning, which it
  does when the caller's task has been set to \<open>TASK_UNINTERRUPTIBLE\<close>, is \<open>blocked\<close> in \<open>MP2_Session\<close>.
\<close>

definition yield_entry :: "u32 \<Rightarrow> u64 \<Rightarrow> u32 \<Rightarrow> mp2 \<Rightarrow> mp2 kres" where
  "yield_entry USER_HZ jiffies pid s =
     bindK (trace_curr s) (\<lambda>_.
     bindK (find_by_pid s pid) (\<lambda>p.
     bindK (nonnull p) (\<lambda>a.
     bindK (deref (slab s) a) (\<lambda>t.
     bindK
       (if ts_next_period t = 0 then
          Inr (set_node a (t\<lparr>ts_next_period := jiffies + period_ticks USER_HZ (ts_period t),
                            ts_state := READY\<rparr>) s)
        else
          bindK (if jiffies < ts_next_period t
                 then bindK (set_task_sleep pid s) (\<lambda>(ret, s1). mod_timer a (ts_next_period t) s1)
                 else Inr s)
            (\<lambda>s2. add_period USER_HZ a s2))
       (\<lambda>s3. bindK (wake_dispatch s3) (\<lambda>s4. Inr (emit Schedule s4)))))))"

definition dereg_entry :: "u32 \<Rightarrow> mp2 \<Rightarrow> (u32 \<times> mp2) kres" where
  "dereg_entry pid s =
     bindK (find_by_pid s pid) (\<lambda>p. case p of
       None \<Rightarrow> Inr (1, s)
     | Some a \<Rightarrow>
         let s1 = clear_curr a s in
         bindK (deref (slab s1) a) (\<lambda>t.
           case admission_control (ts_period t) (ts_computation t) (ts_pid t) 1
                  (numerator s1) (denominator s1) of
             (r, n, d) \<Rightarrow>
               bindK (freeone a (s1\<lparr>numerator := n, denominator := d\<rparr>)) (\<lambda>s2.
               bindK (wake_dispatch s2) (\<lambda>s3. Inr (0, s3)))))"

section \<open>The dispatcher\<close>

definition set_new_task :: "addr \<Rightarrow> mp2 \<Rightarrow> mp2 kres" where
  "set_new_task a s =
     bindK (deref (slab s) a) (\<lambda>t.
     bindK (task_ref s (ts_tsk t)) (\<lambda>k.
       let s1 = emit (Wake_up_process k) s;
           s2 = set_node a (t\<lparr>ts_state := RUNNING\<rparr>) s1;
           s3 = emit (Sched_setscheduler k SCHED_FIFO 99) s2
       in Inr (s3\<lparr>curr_tsk := Some a\<rparr>)))"

definition set_old_task :: "addr \<Rightarrow> mp2 \<Rightarrow> mp2 kres" where
  "set_old_task a s =
     bindK (deref (slab s) a) (\<lambda>t.
     bindK (task_ref s (ts_tsk t)) (\<lambda>k.
       let s1 = (if ts_state t = RUNNING then set_node a (t\<lparr>ts_state := READY\<rparr>) s else s)
       in Inr (emit (Sched_setscheduler k SCHED_NORMAL 0) s1)))"

text \<open>The scan of the list for the ready or running task of the least period.\<close>

fun pick_next :: "(addr \<rightharpoonup> mp2_task_struct) \<Rightarrow> addr list \<Rightarrow> u32 \<Rightarrow> addr option \<Rightarrow> addr option kres"
  where
  "pick_next h [] min_period next = Inr next"
| "pick_next h (itr # rest) min_period next =
     bindK (deref h itr) (\<lambda>t.
       if ts_state t \<noteq> SLEEPING \<and> ts_period t < min_period
       then pick_next h rest (ts_period t) (Some itr)
       else pick_next h rest min_period next)"

text \<open>One turn of the loop of \<open>dispatch_fn\<close>, up to the point where the thread goes to sleep.\<close>

definition dispatch_fn :: "mp2 \<Rightarrow> mp2 kres" where
  "dispatch_fn s =
     bindK (pick_next (slab s) (HEAD s) INT_MAX None) (\<lambda>next.
     bindK
       (case next of
          None \<Rightarrow> Inr s
        | Some n \<Rightarrow>
            if curr_tsk s \<noteq> Some n
            then bindK (case curr_tsk s of None \<Rightarrow> Inr s | Some c \<Rightarrow> set_old_task c s) (set_new_task n)
            else Inr s)
       (\<lambda>s1. Inr (emit Schedule (emit Set_current_interruptible s1))))"

section \<open>Loading and unloading\<close>

definition init_slab :: "bool \<Rightarrow> mp2 \<Rightarrow> mp2" where
  "init_slab cache_created s = emit Kmem_cache_create (s\<lparr>mycache := cache_created\<rparr>)"

text \<open>
  \<open>kthread_create\<close> hands back the thread or an error pointer; the test of \<open>init_mykernel\<close> is for
  \<open>NULL\<close>, so an error pointer is woken.
\<close>

definition init_mykernel :: "kth_ptr \<Rightarrow> mp2 \<Rightarrow> mp2 kres" where
  "init_mykernel kth s =
     (let s1 = emit Kthread_create (s\<lparr>dispatch_kth := kth\<rparr>)
      in if dispatch_kth s1 = Kth_null then Inr s1 else wake_dispatch s1)"

definition mp2_init :: "bool \<Rightarrow> bool \<Rightarrow> kth_ptr \<Rightarrow> (errno + mp2) kres" where
  "mp2_init file_created cache_created kth =
     (if \<not> file_created then Inr (Inl ENOMEM)
      else mapK Inr (init_mykernel kth (init_slab cache_created
        \<lparr>HEAD = [], slab = Map.empty, curr_tsk = None, numerator = 0, denominator = 0,
         mycache = False, dispatch_kth = Kth_null, exited = {}, klog = [Proc_mkdir, Proc_create]\<rparr>)))"

fun free_nodes :: "addr list \<Rightarrow> mp2 \<Rightarrow> mp2 kres" where
  "free_nodes [] s = Inr s"
| "free_nodes (itr # rest) s = bindK (freeone itr s) (free_nodes rest)"

definition freeall :: "mp2 \<Rightarrow> mp2 kres" where
  "freeall s = free_nodes (HEAD s) (s\<lparr>curr_tsk := None\<rparr>)"

definition mp2_exit :: "mp2 \<Rightarrow> mp2 kres" where
  "mp2_exit s =
     bindK (freeall (emit Proc_remove_dir (emit Proc_remove_file s))) (\<lambda>s1.
     bindK (on_dispatch_kth Kthread_stop s1) (\<lambda>s2.
       Inr (if mycache s2 then emit Kmem_cache_destroy s2 else s2)))"

section \<open>The system as a state machine\<close>

text \<open>
  The module reacts to requests of processes, to timers that expire and to wake-ups of its
  dispatcher thread, in any order.  One transition is one complete handler; the label says which.
  \<open>Exit k\<close> is the end of the process of the kernel task \<open>k\<close>, of which the module is not told.
\<close>

datatype mp2_event =
    Register u32 u32 u32 addr
  | Yield u64 u32
  | Deregister u32
  | Timer u64 addr
  | Dispatch
  | Exit ktask

inductive mp2_trans ::
  "(u32 \<Rightarrow> ktask option) \<Rightarrow> u32 \<Rightarrow> mp2 \<Rightarrow> mp2_event \<Rightarrow> mp2 \<Rightarrow> bool" for pid_task USER_HZ where
  register: "slab s a = None \<Longrightarrow> reg_entry (pid_now pid_task s) (Some a) p P C s = Inr (r, s') \<Longrightarrow>
     mp2_trans pid_task USER_HZ s (Register p P C a) s'"
| yield: "yield_entry USER_HZ j p s = Inr s' \<Longrightarrow> mp2_trans pid_task USER_HZ s (Yield j p) s'"
| deregister: "dereg_entry p s = Inr (r, s') \<Longrightarrow> mp2_trans pid_task USER_HZ s (Deregister p) s'"
| timer: "slab s a = Some t \<Longrightarrow> ts_tm t = Some e \<Longrightarrow> e \<le> j \<Longrightarrow>
     mp2_tm_callback a (set_node a (t\<lparr>ts_tm := None\<rparr>) s) = Inr s' \<Longrightarrow>
     mp2_trans pid_task USER_HZ s (Timer j a) s'"
| dispatch: "dispatch_fn s = Inr s' \<Longrightarrow> mp2_trans pid_task USER_HZ s Dispatch s'"
| exit: "mp2_trans pid_task USER_HZ s (Exit k) (s\<lparr>exited := insert k (exited s)\<rparr>)"

text \<open>
  The states reached from a loaded module by events that satisfy \<open>good\<close> in their state.
  \<open>kthread_create\<close> is documented to return a thread or an error pointer and never \<open>NULL\<close>.
\<close>

inductive mp2_reachable ::
  "(u32 \<Rightarrow> ktask option) \<Rightarrow> u32 \<Rightarrow> (mp2_event \<Rightarrow> mp2 \<Rightarrow> bool) \<Rightarrow> mp2 \<Rightarrow> bool"
  for pid_task USER_HZ good where
  loaded: "k \<noteq> Kth_null \<Longrightarrow> mp2_init True c k = Inr (Inr s) \<Longrightarrow> mp2_reachable pid_task USER_HZ good s"
| step: "mp2_reachable pid_task USER_HZ good s \<Longrightarrow> good e s \<Longrightarrow> mp2_trans pid_task USER_HZ s e s' \<Longrightarrow>
     mp2_reachable pid_task USER_HZ good s'"

inductive_cases mp2_transE: "mp2_trans pid_task USER_HZ s e s'"

section \<open>The invariant\<close>

text \<open>
  The dispatcher thread exists; the list links exactly the allocated structs; the current task is linked; a running task is the
  current one; and a sleeping task that has been activated has a pending timer, so that it cannot
  sleep forever.
\<close>

definition mp2_inv :: "mp2 \<Rightarrow> bool" where
  "mp2_inv s \<longleftrightarrow> dispatch_kth s = Kth_thread \<and> klist_inv (HEAD s) (slab s)
     \<and> (\<forall>a. curr_tsk s = Some a \<longrightarrow> a \<in> set (HEAD s))
     \<and> (\<forall>a t. slab s a = Some t \<longrightarrow> ts_state t = RUNNING \<longrightarrow> curr_tsk s = Some a)
     \<and> (\<forall>a t. slab s a = Some t \<longrightarrow> ts_state t = SLEEPING \<longrightarrow> ts_next_period t \<noteq> 0 \<longrightarrow> ts_tm t \<noteq> None)"

lemmas mp2_upd = emit_def set_node_def link_task_def unlink_task_def

lemma find_by_pid_SomeD:
  "find_by_pid s p = Inr (Some a) \<Longrightarrow> a \<in> set (HEAD s) \<and> (\<exists>t. slab s a = Some t \<and> ts_pid t = p)"
  unfolding find_by_pid_def by (rule find_entry_SomeD)

lemma find_by_pid_ok:
  "klist_inv (HEAD s) (slab s) \<Longrightarrow>
   find_by_pid s p = Inr (find (\<lambda>a. map_option ts_pid (slab s a) = Some p) (HEAD s))"
  unfolding find_by_pid_def klist_inv_def
  by (rule find_entry_key) simp

lemma emit_simps [simp]:
  "HEAD (emit c s) = HEAD s" "slab (emit c s) = slab s" "curr_tsk (emit c s) = curr_tsk s"
  "numerator (emit c s) = numerator s" "denominator (emit c s) = denominator s"
  "mycache (emit c s) = mycache s" "dispatch_kth (emit c s) = dispatch_kth s" "exited (emit c s) = exited s"
  "klog (emit c s) = klog s @ [c]"
  by (simp_all add: emit_def)

lemma set_node_simps [simp]:
  "HEAD (set_node a t s) = HEAD s" "slab (set_node a t s) = (slab s)(a \<mapsto> t)"
  "curr_tsk (set_node a t s) = curr_tsk s"
  "numerator (set_node a t s) = numerator s" "denominator (set_node a t s) = denominator s"
  "mycache (set_node a t s) = mycache s" "dispatch_kth (set_node a t s) = dispatch_kth s" "exited (set_node a t s) = exited s"
  "klog (set_node a t s) = klog s"
  by (simp_all add: set_node_def)

lemma link_task_simps [simp]:
  "HEAD (link_task a t s) = HEAD s @ [a]" "slab (link_task a t s) = (slab s)(a \<mapsto> t)"
  "curr_tsk (link_task a t s) = curr_tsk s"
  "numerator (link_task a t s) = numerator s" "denominator (link_task a t s) = denominator s"
  "mycache (link_task a t s) = mycache s" "dispatch_kth (link_task a t s) = dispatch_kth s" "exited (link_task a t s) = exited s"
  "klog (link_task a t s) = klog s"
  by (simp_all add: link_task_def list_add_tail_def)

lemma unlink_task_simps [simp]:
  "HEAD (unlink_task a s) = remove1 a (HEAD s)" "slab (unlink_task a s) = (slab s)(a := None)"
  "curr_tsk (unlink_task a s) = curr_tsk s"
  "numerator (unlink_task a s) = numerator s" "denominator (unlink_task a s) = denominator s"
  "mycache (unlink_task a s) = mycache s" "dispatch_kth (unlink_task a s) = dispatch_kth s" "exited (unlink_task a s) = exited s"
  "klog (unlink_task a s) = klog s"
  by (simp_all add: unlink_task_def list_del_def)

lemma clear_curr_simps [simp]:
  "HEAD (clear_curr a s) = HEAD s" "slab (clear_curr a s) = slab s"
  "numerator (clear_curr a s) = numerator s" "denominator (clear_curr a s) = denominator s"
  "mycache (clear_curr a s) = mycache s" "dispatch_kth (clear_curr a s) = dispatch_kth s" "exited (clear_curr a s) = exited s"
  "klog (clear_curr a s) = klog s"
  "curr_tsk (clear_curr a s) = (if curr_tsk s = Some a then None else curr_tsk s)"
  by (simp_all add: clear_curr_def)

lemma on_dispatch_kth_eq [kres_simps]:
  "on_dispatch_kth c s = Inr s' \<longleftrightarrow> dispatch_kth s = Kth_thread \<and> s' = emit c s"
  by (auto simp: on_dispatch_kth_def split: kth_ptr.splits)

lemma wake_dispatch_eq [kres_simps]:
  "wake_dispatch s = Inr s' \<longleftrightarrow> dispatch_kth s = Kth_thread \<and> s' = emit Wake_up_dispatch s"
  by (simp add: wake_dispatch_def on_dispatch_kth_eq)

lemma on_dispatch_kth_ok [simp]: "dispatch_kth s = Kth_thread \<Longrightarrow> on_dispatch_kth c s = Inr (emit c s)"
  "dispatch_kth s = Kth_thread \<Longrightarrow> wake_dispatch s = Inr (emit Wake_up_dispatch s)"
  by (simp_all add: on_dispatch_kth_def wake_dispatch_def)

lemma task_ref_eq [kres_simps]: "task_ref s p = Inr k \<longleftrightarrow> p = Some k \<and> k \<notin> exited s"
  by (auto simp: task_ref_def kres_simps split: if_splits)

lemma task_ref_ok [simp]: "k \<notin> exited s \<Longrightarrow> task_ref s (Some k) = Inr k"
  by (simp add: task_ref_def)

lemma cache_alloc_from_eq [kres_simps]: "cache_alloc_from s al = Inr r \<longleftrightarrow> mycache s \<and> r = al"
  by (auto simp: cache_alloc_from_def)

lemma cache_alloc_from_ok [simp]: "mycache s \<Longrightarrow> cache_alloc_from s al = Inr al"
  by (simp add: cache_alloc_from_def)

lemma pid_now_all [simp]: "exited s = {} \<Longrightarrow> pid_now tab s = tab"
  by (simp add: pid_now_def fun_eq_iff split: option.split)

lemma pid_now_eq [simp]: "pid_now tab s p = Some k \<longleftrightarrow> tab p = Some k \<and> k \<notin> exited s"
  by (auto simp: pid_now_def split: option.splits)

lemma mp2_inv_emit [simp]: "mp2_inv (emit c s) = mp2_inv s"
  by (simp add: mp2_inv_def emit_def)

lemma mp2_inv_books [simp]: "mp2_inv (s\<lparr>numerator := n, denominator := d\<rparr>) = mp2_inv s"
  by (simp add: mp2_inv_def)

lemma mp2_inv_exited [simp]: "mp2_inv (s\<lparr>exited := x\<rparr>) = mp2_inv s"
  by (simp add: mp2_inv_def)

lemma mp2_inv_set_node:
  assumes "mp2_inv s" and "slab s a = Some t0"
    and "ts_state t = RUNNING \<Longrightarrow> curr_tsk s = Some a"
    and "ts_state t = SLEEPING \<Longrightarrow> ts_next_period t \<noteq> 0 \<Longrightarrow> ts_tm t \<noteq> None"
  shows "mp2_inv (set_node a t s)"
  using assms unfolding mp2_inv_def set_node_def
  by (auto simp: klist_inv_def)

lemma mp2_inv_link:
  assumes "mp2_inv s" and "slab s a = None" and "ts_state t = SLEEPING" and "ts_next_period t = 0"
  shows "mp2_inv (link_task a t s)"
  using assms unfolding mp2_inv_def link_task_def
  by (auto simp: klist_inv_def list_add_tail_def)

lemma mp2_inv_unlink:
  assumes "mp2_inv s" and "curr_tsk s \<noteq> Some a"
  shows "mp2_inv (unlink_task a s)"
  using assms unfolding mp2_inv_def unlink_task_def
  by (auto simp: klist_inv_def list_del_def)

lemma mp2_init_loaded:
  assumes "mp2_init f c k = Inr (Inr s)" and "k \<noteq> Kth_null"
  shows "HEAD s = [] \<and> slab s = Map.empty \<and> curr_tsk s = None \<and> numerator s = 0 \<and> denominator s = 0
    \<and> dispatch_kth s = Kth_thread \<and> exited s = {} \<and> mycache s = c"
  using assms
  by (auto simp: mp2_init_def init_mykernel_def init_slab_def Let_def kres_simps split: if_splits)

lemma mp2_inv_init: "mp2_init f c k = Inr (Inr s) \<Longrightarrow> k \<noteq> Kth_null \<Longrightarrow> mp2_inv s"
  using mp2_init_loaded by (simp add: mp2_inv_def)

lemma reg_entry_cases:
  assumes "reg_entry tab (Some a) p P C s = Inr (r, s')"
  obtains (refused) "ac_admit (P, C) (numerator s, denominator s) = None" "r = 1" "s' = s"
  | (linked) nd where "ac_admit (P, C) (numerator s, denominator s) = Some nd" "mycache s" "r = 0"
      "s' = link_task a (new_task tab p P C) (s\<lparr>numerator := fst nd, denominator := snd nd\<rparr>)"
proof (cases "ac_admit (P, C) (numerator s, denominator s)")
  case None
  with assms show thesis
    by (intro refused) (simp_all add: reg_entry_def admission_control_admit Let_def)
next
  case (Some nd)
  then show thesis
    by (rule linked)
      (use assms Some in \<open>auto simp: reg_entry_def admission_control_admit Let_def kres_simps case_prod_beta\<close>)
qed

lemma reg_entry_inv:
  assumes "mp2_inv s" and "slab s a = None" and "reg_entry tab (Some a) p P C s = Inr (r, s')"
  shows "mp2_inv s'"
  using assms(3)
proof (cases rule: reg_entry_cases)
  case (linked nd)
  then show ?thesis using assms(1,2) by (auto simp: new_task_def intro!: mp2_inv_link)
qed (use assms(1) in simp)

lemma set_task_sleep_cases:
  assumes "set_task_sleep p s = Inr (r, s')"
  obtains (absent) "find_by_pid s p = Inr None" "r = 0" "s' = s"
  | (found) a t k where "find_by_pid s p = Inr (Some a)" "slab s a = Some t" "ts_tsk t = Some k" "k \<notin> exited s" "r = 1"
      "s' = emit (Set_task_uninterruptible k) (set_node a (t\<lparr>ts_state := SLEEPING\<rparr>)
        (clear_curr a s))"
proof -
  obtain q where q: "find_by_pid s p = Inr q"
    using assms by (auto simp: set_task_sleep_def kres_simps)
  show thesis
  proof (cases q)
    case None
    with q assms have "r = 0" "s' = s" by (simp_all add: set_task_sleep_def)
    with q None show thesis by (intro absent) simp_all
  next
    case (Some a)
    with q assms obtain t k where "slab s a = Some t" "ts_tsk t = Some k" "k \<notin> exited s" "r = 1"
      "s' = emit (Set_task_uninterruptible k) (set_node a (t\<lparr>ts_state := SLEEPING\<rparr>) (clear_curr a s))"
      by (auto simp: set_task_sleep_def Let_def kres_simps)
    with q Some show thesis by (intro found) simp_all
  qed
qed

lemma set_task_sleep_inv:
  assumes "mp2_inv s" and "find_by_pid s p = Inr (Some a)" and "set_task_sleep p s = Inr (r, s1)"
    and "mod_timer a e s1 = Inr s2"
  shows "mp2_inv s2"
  using assms(3)
proof (cases rule: set_task_sleep_cases)
  case absent
  with assms(2) show ?thesis by simp
next
  case (found b t k)
  with assms(2,4) have s2: "s2 = emit (Set_task_uninterruptible k)
      (set_node a (t\<lparr>ts_state := SLEEPING, ts_tm := Some e\<rparr>)
        (clear_curr a s))"
    by (auto simp: mod_timer_def kres_simps mp2_upd)
  show ?thesis
    using assms(1) found assms(2) unfolding s2 mp2_inv_def
    by (auto simp: mp2_upd klist_inv_def split: if_splits)
qed

lemma add_period_inv:
  assumes "mp2_inv s" and "add_period hz a s = Inr s'"
    and "\<And>t. slab s a = Some t \<Longrightarrow> ts_state t = SLEEPING \<Longrightarrow> ts_tm t \<noteq> None"
  shows "mp2_inv s'"
proof -
  obtain t where t: "slab s a = Some t"
    and s': "s' = set_node a (t\<lparr>ts_next_period := ts_next_period t + period_ticks hz (ts_period t)\<rparr>) s"
    using assms(2) by (auto simp: add_period_def kres_simps)
  show ?thesis
    unfolding s' using assms(1) t
    by (rule mp2_inv_set_node) (use assms t in \<open>auto simp: mp2_inv_def\<close>)
qed

lemma mod_timer_slab: "mod_timer a e s = Inr s' \<Longrightarrow> slab s' a = Some t \<Longrightarrow> ts_tm t = Some e"
  by (auto simp: mod_timer_def kres_simps set_node_def)

lemma yield_entry_cases:
  assumes "yield_entry hz j p s = Inr s'"
  obtains (activate) a t where "find_by_pid s p = Inr (Some a)" "slab s a = Some t" "ts_next_period t = 0"
      "s' = emit Schedule (emit Wake_up_dispatch (set_node a
        (t\<lparr>ts_next_period := j + period_ticks hz (ts_period t), ts_state := READY\<rparr>) s))"
  | (early) a t r s1 s2 s3 where "find_by_pid s p = Inr (Some a)" "slab s a = Some t" "ts_next_period t \<noteq> 0"
      "j < ts_next_period t" "set_task_sleep p s = Inr (r, s1)"
      "mod_timer a (ts_next_period t) s1 = Inr s2" "add_period hz a s2 = Inr s3"
      "s' = emit Schedule (emit Wake_up_dispatch s3)"
  | (late) a t s3 where "find_by_pid s p = Inr (Some a)" "slab s a = Some t" "ts_next_period t \<noteq> 0"
      "\<not> j < ts_next_period t" "add_period hz a s = Inr s3"
      "s' = emit Schedule (emit Wake_up_dispatch s3)"
proof -
  obtain a t where a: "find_by_pid s p = Inr (Some a)" and t: "slab s a = Some t"
    using assms by (auto simp: yield_entry_def kres_simps)
  consider "ts_next_period t = 0" | "ts_next_period t \<noteq> 0" "j < ts_next_period t"
    | "ts_next_period t \<noteq> 0" "\<not> j < ts_next_period t"
    by blast
  then show thesis
  proof cases
    case 1
    show thesis
      by (rule activate [OF a t 1]) (use assms a t 1 in \<open>auto simp: yield_entry_def kres_simps\<close>)
  next
    case 2
    with assms a t obtain r s1 s2 s3 where "set_task_sleep p s = Inr (r, s1)"
      "mod_timer a (ts_next_period t) s1 = Inr s2" "add_period hz a s2 = Inr s3"
      "s' = emit Schedule (emit Wake_up_dispatch s3)"
      by (auto simp: yield_entry_def kres_simps split: prod.splits)
    with a t 2 show thesis by (rule early)
  next
    case 3
    with assms a t obtain s3 where "add_period hz a s = Inr s3"
      "s' = emit Schedule (emit Wake_up_dispatch s3)"
      by (auto simp: yield_entry_def kres_simps)
    with a t 3 show thesis by (rule late)
  qed
qed

lemma yield_entry_inv:
  assumes inv: "mp2_inv s" and y: "yield_entry hz j p s = Inr s'"
  shows "mp2_inv s'"
  using y
proof (cases rule: yield_entry_cases)
  case (activate a t)
  have "mp2_inv (set_node a (t\<lparr>ts_next_period := j + period_ticks hz (ts_period t), ts_state := READY\<rparr>) s)"
    using inv activate(2) by (rule mp2_inv_set_node) simp_all
  with activate show ?thesis by simp
next
  case (early a t r s1 s2 s3)
  have "mp2_inv s2" using inv early(1,5,6) by (rule set_task_sleep_inv)
  then have "mp2_inv s3"
    using early(7) by (rule add_period_inv) (simp add: mod_timer_slab [OF early(6)])
  with early show ?thesis by simp
next
  case (late a t s3)
  have "mp2_inv s3"
    using inv late(5) by (rule add_period_inv) (use inv late in \<open>auto simp: mp2_inv_def\<close>)
  with late show ?thesis by simp
qed

lemma dereg_entry_cases:
  assumes "dereg_entry p s = Inr (r, s')"
  obtains (absent) "find_by_pid s p = Inr None" "r = 1" "s' = s"
  | (found) a t nd where "find_by_pid s p = Inr (Some a)" "slab s a = Some t" "r = 0"
      "nd = ac_release (ts_period t, ts_computation t) (numerator s, denominator s)"
      "s' = emit Wake_up_dispatch (unlink_task a
        ((clear_curr a s)\<lparr>numerator := fst nd, denominator := snd nd\<rparr>))"
proof -
  obtain q where q: "find_by_pid s p = Inr q"
    using assms by (auto simp: dereg_entry_def kres_simps)
  show thesis
  proof (cases q)
    case None
    with q assms have "r = 1" "s' = s" by (simp_all add: dereg_entry_def)
    with q None show thesis by (intro absent) simp_all
  next
    case (Some a)
    with q assms obtain t where t: "slab s a = Some t" and r: "r = 0"
      by (auto simp: dereg_entry_def case_prod_beta kres_simps)
    have "find_by_pid s p = Inr (Some a)" using q Some by simp
    from found [OF this t r refl] show thesis
      using q Some assms t
      by (auto simp: dereg_entry_def freeone_def admission_control_release case_prod_beta kres_simps)
  qed
qed

lemma dereg_entry_inv:
  assumes "mp2_inv s" and "dereg_entry p s = Inr (r, s')"
  shows "mp2_inv s'"
  using assms(2)
proof (cases rule: dereg_entry_cases)
  case absent
  with assms(1) show ?thesis by simp
next
  case (found a t nd)
  have "mp2_inv (unlink_task a
      ((clear_curr a s)\<lparr>numerator := fst nd, denominator := snd nd\<rparr>))"
    using assms(1) unfolding mp2_inv_def unlink_task_def
    by (auto simp: klist_inv_def list_del_def split: if_splits)
  with found show ?thesis by simp
qed

lemma timer_inv:
  assumes "mp2_inv s" and "slab s a = Some t"
    and "mp2_tm_callback a (set_node a (t\<lparr>ts_tm := None\<rparr>) s) = Inr s'"
  shows "mp2_inv s'"
proof -
  have s': "s' = emit Wake_up_dispatch (set_node a
      (t\<lparr>ts_tm := None, ts_state := (if ts_state t = SLEEPING then READY else ts_state t)\<rparr>) s)"
    using assms(3) by (auto simp: mp2_tm_callback_def set_node_def kres_simps emit_def)
  have "mp2_inv (set_node a
      (t\<lparr>ts_tm := None, ts_state := (if ts_state t = SLEEPING then READY else ts_state t)\<rparr>) s)"
    using assms(1,2) by (rule mp2_inv_set_node) (use assms in \<open>auto simp: mp2_inv_def split: if_splits\<close>)
  then show ?thesis by (simp add: s')
qed

lemma set_old_task_cases:
  assumes "set_old_task a s = Inr s'"
  obtains t k where "slab s a = Some t" "ts_tsk t = Some k"
    "s' = emit (Sched_setscheduler k SCHED_NORMAL 0)
      (if ts_state t = RUNNING then set_node a (t\<lparr>ts_state := READY\<rparr>) s else s)"
  using assms that by (auto simp: set_old_task_def kres_simps Let_def)

lemma set_new_task_cases:
  assumes "set_new_task a s = Inr s'"
  obtains t k where "slab s a = Some t" "ts_tsk t = Some k"
    "s' = (emit (Sched_setscheduler k SCHED_FIFO 99) (set_node a (t\<lparr>ts_state := RUNNING\<rparr>)
      (emit (Wake_up_process k) s)))\<lparr>curr_tsk := Some a\<rparr>"
  using assms that by (auto simp: set_new_task_def kres_simps Let_def)

text \<open>Demoting the current task, if there is one, leaves no task running.\<close>

definition none_running :: "mp2 \<Rightarrow> bool" where
  "none_running s = (\<forall>a t. slab s a = Some t \<longrightarrow> ts_state t \<noteq> RUNNING)"

lemma demote_inv:
  assumes "mp2_inv s" and "(case curr_tsk s of None \<Rightarrow> Inr s | Some c \<Rightarrow> set_old_task c s) = Inr s1"
  shows "mp2_inv s1 \<and> none_running s1 \<and> HEAD s1 = HEAD s"
proof (cases "curr_tsk s")
  case None
  with assms show ?thesis by (auto simp: mp2_inv_def none_running_def)
next
  case (Some c)
  with assms(2) obtain t k where t: "slab s c = Some t" and s1: "s1 = emit (Sched_setscheduler k SCHED_NORMAL 0)
      (if ts_state t = RUNNING then set_node c (t\<lparr>ts_state := READY\<rparr>) s else s)"
    by (auto elim: set_old_task_cases)
  have only: "b = c" if "slab s b = Some u" "ts_state u = RUNNING" for b u
    using assms(1) Some that by (auto simp: mp2_inv_def)
  show ?thesis
  proof (cases "ts_state t = RUNNING")
    case True
    have "mp2_inv (set_node c (t\<lparr>ts_state := READY\<rparr>) s)"
      using assms(1) t by (rule mp2_inv_set_node) simp_all
    then show ?thesis
      using True s1 only by (auto simp: none_running_def)
  next
    case False
    with assms(1) s1 only t show ?thesis by (auto simp: none_running_def)
  qed
qed

lemma promote_inv:
  assumes "mp2_inv s" and "none_running s" and "set_new_task a s = Inr s'"
  shows "mp2_inv s'"
  using assms(3)
proof (cases rule: set_new_task_cases)
  case (1 t k)
  with assms(1,2) show ?thesis
    unfolding mp2_inv_def none_running_def
    by (auto simp: mp2_upd klist_inv_def)
qed

lemma dispatch_fn_cases:
  assumes "dispatch_fn s = Inr s'"
  obtains (keep) nx where "pick_next (slab s) (HEAD s) INT_MAX None = Inr nx"
      "nx = None \<or> nx = curr_tsk s" "s' = emit Schedule (emit Set_current_interruptible s)"
  | (switch) n s1 s2 where "pick_next (slab s) (HEAD s) INT_MAX None = Inr (Some n)"
      "curr_tsk s \<noteq> Some n" "(case curr_tsk s of None \<Rightarrow> Inr s | Some c \<Rightarrow> set_old_task c s) = Inr s1"
      "set_new_task n s1 = Inr s2" "s' = emit Schedule (emit Set_current_interruptible s2)"
proof -
  obtain nx where nx: "pick_next (slab s) (HEAD s) INT_MAX None = Inr nx"
    using assms by (auto simp: dispatch_fn_def kres_simps)
  show thesis
  proof (cases "nx = None \<or> nx = curr_tsk s")
    case True
    with nx assms have "s' = emit Schedule (emit Set_current_interruptible s)"
      by (auto simp: dispatch_fn_def split: option.splits)
    with nx True show thesis by (rule keep)
  next
    case False
    then obtain n where n: "nx = Some n" "curr_tsk s \<noteq> Some n" by auto
    with nx assms obtain s1 s2 where "(case curr_tsk s of None \<Rightarrow> Inr s | Some c \<Rightarrow> set_old_task c s) = Inr s1"
      "set_new_task n s1 = Inr s2" "s' = emit Schedule (emit Set_current_interruptible s2)"
      by (auto simp: dispatch_fn_def kres_simps)
    with nx n show thesis by (intro switch) simp_all
  qed
qed

lemma dispatch_fn_inv:
  assumes "mp2_inv s" and "dispatch_fn s = Inr s'"
  shows "mp2_inv s'"
  using assms(2)
proof (cases rule: dispatch_fn_cases)
  case (keep nx)
  with assms(1) show ?thesis by simp
next
  case (switch n s1 s2)
  have "mp2_inv s2" using demote_inv [OF assms(1) switch(3)] switch(4) by (blast intro: promote_inv)
  with switch show ?thesis by simp
qed

lemma mp2_trans_inv: "mp2_trans tab hz s e s' \<Longrightarrow> mp2_inv s \<Longrightarrow> mp2_inv s'"
proof (induction rule: mp2_trans.induct)
  case (exit s k)
  then show ?case by simp
qed (blast intro: reg_entry_inv yield_entry_inv dereg_entry_inv timer_inv dispatch_fn_inv)+

lemma reachable_inv: "mp2_reachable tab hz good s \<Longrightarrow> mp2_inv s"
  by (induction rule: mp2_reachable.induct) (blast intro: mp2_inv_init mp2_trans_inv)+

section \<open>The dispatcher follows the rate-monotonic policy\<close>

definition runnable :: "(addr \<rightharpoonup> mp2_task_struct) \<Rightarrow> u32 \<Rightarrow> addr \<Rightarrow> bool" where
  "runnable h bound a = (case h a of None \<Rightarrow> False | Some t \<Rightarrow> ts_state t \<noteq> SLEEPING \<and> ts_period t < bound)"

definition period_of :: "(addr \<rightharpoonup> mp2_task_struct) \<Rightarrow> addr \<Rightarrow> u32" where
  "period_of h a = ts_period (the (h a))"

text \<open>
  \<open>rm_first h bound xs a\<close>: \<open>a\<close> is the first of the runnable tasks of \<open>xs\<close> whose period is least.
\<close>

definition rm_first :: "(addr \<rightharpoonup> mp2_task_struct) \<Rightarrow> u32 \<Rightarrow> addr list \<Rightarrow> addr \<Rightarrow> bool" where
  "rm_first h bound xs a = (\<exists>ys zs. xs = ys @ a # zs \<and> runnable h bound a
     \<and> (\<forall>b \<in> set ys. runnable h bound b \<longrightarrow> period_of h a < period_of h b)
     \<and> (\<forall>b \<in> set zs. runnable h bound b \<longrightarrow> period_of h a \<le> period_of h b))"

lemma runnable_mono: "runnable h b a \<Longrightarrow> b \<le> c \<Longrightarrow> runnable h c a"
  by (auto simp: runnable_def split: option.splits)

lemma runnable_iff:
  "a \<in> dom h \<Longrightarrow> b \<le> c \<Longrightarrow> runnable h b a \<longleftrightarrow> runnable h c a \<and> period_of h a < b"
  by (auto simp: runnable_def period_of_def split: option.splits)

lemma rm_first_Cons_skip:
  assumes "rm_first h bound xs a" and "\<not> runnable h bound x"
  shows "rm_first h bound (x # xs) a"
proof -
  from assms(1) obtain ys zs where ys: "xs = ys @ a # zs" "runnable h bound a"
    "\<forall>b \<in> set ys. runnable h bound b \<longrightarrow> period_of h a < period_of h b"
    "\<forall>b \<in> set zs. runnable h bound b \<longrightarrow> period_of h a \<le> period_of h b"
    by (auto simp: rm_first_def)
  have "x # xs = (x # ys) @ a # zs" using ys by simp
  with ys assms(2) show ?thesis unfolding rm_first_def by fastforce
qed

lemma rm_first_Cons_better:
  assumes "rm_first h (period_of h x) xs a" and "runnable h bound x" and "set (x # xs) \<subseteq> dom h"
  shows "rm_first h bound (x # xs) a"
proof -
  from assms(1) obtain ys zs where ys: "xs = ys @ a # zs" "runnable h (period_of h x) a"
    "\<forall>b \<in> set ys. runnable h (period_of h x) b \<longrightarrow> period_of h a < period_of h b"
    "\<forall>b \<in> set zs. runnable h (period_of h x) b \<longrightarrow> period_of h a \<le> period_of h b"
    by (auto simp: rm_first_def)
  have x: "period_of h x < bound" using assms(2) by (auto simp: runnable_def period_of_def split: option.splits)
  have sub: "\<And>b. b \<in> set xs \<Longrightarrow> runnable h (period_of h x) b \<longleftrightarrow> runnable h bound b \<and> period_of h b < period_of h x"
    using assms(3) x by (intro runnable_iff) auto
  have a: "runnable h bound a" "period_of h a < period_of h x" using ys sub by auto
  have better: "period_of h a < period_of h b"
    if "b \<in> set ys" "runnable h bound b" for b
    using that ys sub [of b] a(2) by (cases "period_of h b < period_of h x") auto
  have good: "period_of h a \<le> period_of h b"
    if "b \<in> set zs" "runnable h bound b" for b
    using that ys sub [of b] a(2) by (cases "period_of h b < period_of h x") auto
  have "x # xs = (x # ys) @ a # zs" using ys by simp
  with a better good show ?thesis unfolding rm_first_def by fastforce
qed

lemma pick_next_spec:
  assumes "set xs \<subseteq> dom h"
  shows "\<exists>r. pick_next h xs bound nx = Inr r \<and>
    (if \<exists>b \<in> set xs. runnable h bound b then \<exists>a. r = Some a \<and> rm_first h bound xs a else r = nx)"
  using assms
proof (induction xs arbitrary: bound nx)
  case Nil
  then show ?case by simp
next
  case (Cons x xs)
  then obtain t where t: "h x = Some t" by auto
  have d: "set xs \<subseteq> dom h" using Cons.prems by simp
  show ?case
  proof (cases "runnable h bound x")
    case True
    then have step: "pick_next h (x # xs) bound nx = pick_next h xs (period_of h x) (Some x)"
      by (simp add: runnable_def t deref_def period_of_def)
    obtain r where r: "pick_next h xs (period_of h x) (Some x) = Inr r"
      "if \<exists>b \<in> set xs. runnable h (period_of h x) b then \<exists>a. r = Some a \<and> rm_first h (period_of h x) xs a
       else r = Some x"
      using Cons.IH [OF d] by blast
    show ?thesis
    proof (cases "\<exists>b \<in> set xs. runnable h (period_of h x) b")
      case better: True
      with r(2) obtain a where "r = Some a" "rm_first h (period_of h x) xs a" by auto
      moreover from this have "rm_first h bound (x # xs) a"
        using True Cons.prems by (blast intro: rm_first_Cons_better)
      ultimately show ?thesis using r(1) step True by auto
    next
      case False
      have "period_of h x < bound" using True by (simp add: runnable_def t period_of_def)
      then have "period_of h x \<le> period_of h b" if "b \<in> set xs" "runnable h bound b" for b
        using False that subsetD [OF d that(1)] runnable_iff [of b h "period_of h x" bound] by force
      then have "rm_first h bound (x # xs) x"
        unfolding rm_first_def using True by (intro exI [of _ "[]"] exI [of _ xs]) simp
      with r step False True show ?thesis by auto
    qed
  next
    case False
    then have step: "pick_next h (x # xs) bound nx = pick_next h xs bound nx"
      by (auto simp: runnable_def t deref_def)
    from Cons.IH [OF d, of bound nx] False step show ?thesis
      by (auto intro: rm_first_Cons_skip split: if_splits)
  qed
qed

text \<open>Every linked task belongs to a living process.\<close>

definition tasks_live :: "mp2 \<Rightarrow> bool" where
  "tasks_live s = (\<forall>a t. slab s a = Some t \<longrightarrow> (\<exists>k. ts_tsk t = Some k \<and> k \<notin> exited s))"

lemma tasks_liveD:
  assumes "tasks_live s" and "slab s a = Some t"
  obtains k where "ts_tsk t = Some k" "k \<notin> exited s"
  using assms by (auto simp: tasks_live_def)

lemma set_old_task_ok:
  assumes "slab s a = Some t" and "tasks_live s"
  shows "\<exists>s'. set_old_task a s = Inr s' \<and> tasks_live s' \<and> dom (slab s') = dom (slab s)"
proof -
  obtain k where "ts_tsk t = Some k" "k \<notin> exited s" using assms(2,1) by (rule tasks_liveD)
  with assms show ?thesis by (auto simp: set_old_task_def deref_def Let_def tasks_live_def)
qed

lemma set_new_task_ok: "slab s a = Some t \<Longrightarrow> tasks_live s \<Longrightarrow> \<exists>s'. set_new_task a s = Inr s'"
  by (auto simp: set_new_task_def deref_def Let_def elim!: tasks_liveD)

lemma klist_dom: "mp2_inv s \<Longrightarrow> dom (slab s) = set (HEAD s)"
  by (simp add: mp2_inv_def klist_inv_def)

lemma pick_next_linked:
  assumes "mp2_inv s"
  obtains r where "pick_next (slab s) (HEAD s) INT_MAX None = Inr r"
    "if \<exists>b \<in> set (HEAD s). runnable (slab s) INT_MAX b
     then \<exists>a. r = Some a \<and> rm_first (slab s) INT_MAX (HEAD s) a else r = None"
  using pick_next_spec [of "HEAD s" "slab s" INT_MAX None] klist_dom [OF assms] by auto

lemma rm_first_in: "rm_first h bound xs a \<Longrightarrow> a \<in> set xs \<and> runnable h bound a"
  by (auto simp: rm_first_def)

lemma demote_ok:
  assumes "mp2_inv s" and "tasks_live s"
  shows "\<exists>s1. (case curr_tsk s of None \<Rightarrow> Inr s | Some c \<Rightarrow> set_old_task c s) = Inr s1
    \<and> tasks_live s1 \<and> dom (slab s1) = dom (slab s)"
proof (cases "curr_tsk s")
  case (Some c)
  then have "c \<in> dom (slab s)" using assms(1) by (auto simp: mp2_inv_def klist_inv_def)
  with Some assms(2) set_old_task_ok show ?thesis by auto
qed (use assms in simp)

lemma dispatch_fn_ok:
  assumes inv: "mp2_inv s" and live: "tasks_live s"
  shows "ok (dispatch_fn s)"
proof -
  obtain r where r: "pick_next (slab s) (HEAD s) INT_MAX None = Inr r"
    and spec: "if \<exists>b \<in> set (HEAD s). runnable (slab s) INT_MAX b
     then \<exists>a. r = Some a \<and> rm_first (slab s) INT_MAX (HEAD s) a else r = None"
    using inv by (rule pick_next_linked)
  show ?thesis
  proof (cases r)
    case None
    with r show ?thesis by (simp add: dispatch_fn_def)
  next
    case (Some n)
    with spec have n: "n \<in> dom (slab s)"
      using klist_dom [OF inv] by (auto dest: rm_first_in split: if_splits)
    obtain s1 where s1: "(case curr_tsk s of None \<Rightarrow> Inr s | Some c \<Rightarrow> set_old_task c s) = Inr s1"
      and "tasks_live s1" "dom (slab s1) = dom (slab s)" using demote_ok [OF inv live] by blast
    then obtain s2 where "set_new_task n s1 = Inr s2"
      using n set_new_task_ok by blast
    with s1 Some r show ?thesis by (simp add: dispatch_fn_def)
  qed
qed

text \<open>What demoting the current task does to the store and which calls it makes.\<close>

definition demoted_slab :: "mp2 \<Rightarrow> addr \<rightharpoonup> mp2_task_struct" where
  "demoted_slab s = (case curr_tsk s of None \<Rightarrow> slab s
     | Some c \<Rightarrow> (slab s)(c := map_option (\<lambda>t. if ts_state t = RUNNING then t\<lparr>ts_state := READY\<rparr> else t) (slab s c)))"

definition demote_calls :: "mp2 \<Rightarrow> kcall list" where
  "demote_calls s = (case curr_tsk s of None \<Rightarrow> []
     | Some c \<Rightarrow> [Sched_setscheduler (the (ts_tsk (the (slab s c)))) SCHED_NORMAL 0])"

lemma demote_effect:
  assumes "(case curr_tsk s of None \<Rightarrow> Inr s | Some c \<Rightarrow> set_old_task c s) = Inr s1"
  shows "slab s1 = demoted_slab s" and "klog s1 = klog s @ demote_calls s"
  using assms
  by (auto simp: demote_calls_def demoted_slab_def fun_eq_iff elim!: set_old_task_cases split: option.splits)

lemma dispatch_fn_switch:
  assumes inv: "mp2_inv s" and d: "dispatch_fn s = Inr s'"
    and ex: "\<exists>b \<in> set (HEAD s). runnable (slab s) INT_MAX b"
  shows "\<exists>a. rm_first (slab s) INT_MAX (HEAD s) a \<and> curr_tsk s' = Some a \<and>
    (if curr_tsk s = Some a
     then slab s' = slab s \<and> klog s' = klog s @ [Set_current_interruptible, Schedule]
     else \<exists>t k. slab s a = Some t \<and> ts_tsk t = Some k
       \<and> slab s' = (demoted_slab s)(a \<mapsto> t\<lparr>ts_state := RUNNING\<rparr>)
       \<and> klog s' = klog s @ demote_calls s @ [Wake_up_process k, Sched_setscheduler k SCHED_FIFO 99,
           Set_current_interruptible, Schedule])"
proof -
  obtain a where p: "pick_next (slab s) (HEAD s) INT_MAX None = Inr (Some a)"
    and a: "rm_first (slab s) INT_MAX (HEAD s) a"
    using pick_next_linked [OF inv] ex by metis
  from d show ?thesis
  proof (cases rule: dispatch_fn_cases)
    case (keep nx)
    with p a show ?thesis by auto
  next
    case (switch n s1 s2)
    note eff = demote_effect [OF switch(3)]
    from switch(4) obtain t k where t: "slab s1 n = Some t" "ts_tsk t = Some k"
      and s2: "s2 = (emit (Sched_setscheduler k SCHED_FIFO 99) (set_node n (t\<lparr>ts_state := RUNNING\<rparr>)
        (emit (Wake_up_process k) s1)))\<lparr>curr_tsk := Some n\<rparr>"
      by (rule set_new_task_cases)
    have "slab s n = Some t"
      using t(1) switch(2) by (simp add: eff(1) demoted_slab_def split: option.splits if_splits)
    with switch p a t(2) eff s2 show ?thesis by auto
  qed
qed

section \<open>The books of the admission control\<close>

definition task_of :: "mp2 \<Rightarrow> addr \<Rightarrow> u32 \<times> u32" where
  "task_of s a = (ts_period (the (slab s a)), ts_computation (the (slab s a)))"

definition total_load :: "mp2 \<Rightarrow> real" where
  "total_load s = (\<Sum>a\<leftarrow>HEAD s. task_load (task_of s a))"

text \<open>
  The recorded fraction is the sum of the loads of the linked tasks and stays within the limit.
\<close>

definition books_ok :: "mp2 \<Rightarrow> bool" where
  "books_ok s = (frac_valid (numerator s, denominator s)
     \<and> utilisation (numerator s, denominator s) = total_load s \<and> total_load s \<le> 693 / 1000)"

text \<open>No product of the admission arithmetic wraps around in the handler of the event.\<close>

fun event_fits :: "mp2_event \<Rightarrow> mp2 \<Rightarrow> bool" where
  "event_fits (Register p P C a) s = admit_fits (P, C) (numerator s, denominator s)"
| "event_fits (Deregister p) s =
     (case find_by_pid s p of Inr (Some a) \<Rightarrow> release_fits (task_of s a) (numerator s, denominator s) | _ \<Rightarrow> True)"
| "event_fits _ s = True"

text \<open>
  The fields of a task that only its registration sets, and \<open>same_static s s'\<close>: the handler neither
  links nor unlinks a task and touches none of these fields.
\<close>

definition static_of :: "mp2_task_struct \<Rightarrow> ktask option \<times> u32 \<times> u32 \<times> u32" where
  "static_of t = (ts_tsk t, ts_pid t, ts_period t, ts_computation t)"

definition same_static :: "mp2 \<Rightarrow> mp2 \<Rightarrow> bool" where
  "same_static s s' = (HEAD s' = HEAD s \<and> exited s' = exited s \<and> numerator s' = numerator s \<and> denominator s' = denominator s
     \<and> (\<forall>a. map_option static_of (slab s' a) = map_option static_of (slab s a)))"

lemma same_static_map:
  assumes "same_static s s'" and "\<And>t u. static_of t = static_of u \<Longrightarrow> f t = f u"
  shows "map_option f (slab s' a) = map_option f (slab s a)"
proof -
  have "map_option static_of (slab s' a) = map_option static_of (slab s a)"
    using assms(1) by (simp add: same_static_def)
  then show ?thesis
    by (cases "slab s a"; cases "slab s' a") (auto intro: assms(2))
qed

lemma same_static_books:
  assumes "same_static s s'" and "books_ok s" and "klist_inv (HEAD s) (slab s)"
  shows "books_ok s'"
proof -
  have "task_of s' a = task_of s a" if mem: "a \<in> set (HEAD s)" for a
  proof -
    obtain t where "slab s a = Some t" using mem klist_inv_in [OF assms(3)] by blast
    moreover have "map_option (\<lambda>t. (ts_period t, ts_computation t)) (slab s' a) =
        map_option (\<lambda>t. (ts_period t, ts_computation t)) (slab s a)"
      using assms(1) by (rule same_static_map) (simp add: static_of_def)
    ultimately show ?thesis by (cases "slab s' a") (auto simp: static_of_def task_of_def)
  qed
  then have "total_load s' = total_load s"
    using assms(1) by (auto simp: same_static_def total_load_def cong: map_cong)
  with assms(1,2) show ?thesis by (simp add: same_static_def books_ok_def)
qed

lemma books_ok_exited [simp]: "books_ok (s\<lparr>exited := x\<rparr>) = books_ok s"
  by (simp add: books_ok_def total_load_def task_of_def)

lemma same_static_refl [simp]: "same_static s s"
  by (simp add: same_static_def)

lemma same_static_trans: "same_static s t \<Longrightarrow> same_static t u \<Longrightarrow> same_static s u"
  by (auto simp: same_static_def)

lemma same_static_emit [simp]: "same_static s (emit c t) = same_static s t"
  by (simp add: same_static_def)

lemma same_static_set_node:
  "same_static s s0 \<Longrightarrow>
   map_option static_of (slab s0 a) = Some (static_of u) \<Longrightarrow>
   same_static s (set_node a u s0)"
  by (auto simp: same_static_def)

lemma same_static_clear_curr [simp]: "same_static s (clear_curr a s)"
  by (simp add: same_static_def)

lemma same_static_curr [simp]: "same_static s (t\<lparr>curr_tsk := c\<rparr>) = same_static s t"
  by (simp add: same_static_def)

lemma set_task_sleep_static: "set_task_sleep p s = Inr (r, s') \<Longrightarrow> same_static s s'"
  by (erule set_task_sleep_cases) (simp_all add: same_static_set_node static_of_def)

lemma mod_timer_static: "mod_timer a e s = Inr s' \<Longrightarrow> same_static s s'"
  by (auto simp: mod_timer_def kres_simps same_static_set_node static_of_def)

lemma add_period_static: "add_period hz a s = Inr s' \<Longrightarrow> same_static s s'"
  by (auto simp: add_period_def kres_simps same_static_set_node static_of_def)

lemma yield_entry_static:
  assumes "yield_entry hz j p s = Inr s'"
  shows "same_static s s'"
  using assms
proof (cases rule: yield_entry_cases)
  case (early a t r s1 s2 s3)
  have "same_static s s3"
    using set_task_sleep_static [OF early(5)] mod_timer_static [OF early(6)] add_period_static [OF early(7)]
    by (blast intro: same_static_trans)
  with early show ?thesis by simp
qed (simp_all add: same_static_set_node static_of_def add_period_static)

lemma tm_callback_static: "mp2_tm_callback a s = Inr s' \<Longrightarrow> same_static s s'"
  by (auto simp: mp2_tm_callback_def kres_simps same_static_set_node static_of_def)

lemma set_old_task_static: "set_old_task a s = Inr s' \<Longrightarrow> same_static s s'"
  by (erule set_old_task_cases) (simp add: same_static_set_node static_of_def)

lemma set_new_task_static: "set_new_task a s = Inr s' \<Longrightarrow> same_static s s'"
  by (erule set_new_task_cases) (simp add: same_static_set_node static_of_def)

lemma dispatch_fn_static:
  assumes "dispatch_fn s = Inr s'"
  shows "same_static s s'"
  using assms
proof (cases rule: dispatch_fn_cases)
  case (switch n s1 s2)
  have "same_static s s1"
    using switch(3) by (cases "curr_tsk s") (simp_all add: set_old_task_static)
  then have "same_static s s2"
    using set_new_task_static [OF switch(4)] by (rule same_static_trans)
  with switch show ?thesis by simp
qed simp

lemma timer_static:
  assumes "slab s a = Some t" and "mp2_tm_callback a (set_node a (t\<lparr>ts_tm := None\<rparr>) s) = Inr s'"
  shows "same_static s s'"
proof -
  have "same_static s (set_node a (t\<lparr>ts_tm := None\<rparr>) s)"
    using assms(1) by (simp add: same_static_set_node static_of_def)
  then show ?thesis using tm_callback_static [OF assms(2)] by (rule same_static_trans)
qed

lemma books_ok_init: "mp2_init f c k = Inr (Inr s) \<Longrightarrow> k \<noteq> Kth_null \<Longrightarrow> books_ok s"
  using mp2_init_loaded by (simp add: books_ok_def frac_valid_def utilisation_def total_load_def)

lemma task_of_upd_other: "b \<noteq> a \<Longrightarrow> slab s' = (slab s)(a := n) \<Longrightarrow> task_of s' b = task_of s b"
  by (simp add: task_of_def)

lemma reg_entry_books:
  assumes inv: "mp2_inv s" and books: "books_ok s" and fresh: "slab s a = None"
    and fits: "admit_fits (P, C) (numerator s, denominator s)"
    and r: "reg_entry tab (Some a) p P C s = Inr (r, s')"
  shows "books_ok s'"
proof (cases "ac_admit (P, C) (numerator s, denominator s)")
  case None
  have "s' = s" by (rule reg_entry_cases [OF r]) (use None in simp_all)
  with books show ?thesis by simp
next
  case (Some nd)
  have s': "s' = link_task a (new_task tab p P C) (s\<lparr>numerator := fst nd, denominator := snd nd\<rparr>)"
    by (rule reg_entry_cases [OF r]) (use Some in simp_all)
  have a: "a \<notin> set (HEAD s)" using inv fresh by (auto simp: mp2_inv_def klist_inv_def)
  have same: "map (\<lambda>b. task_load (task_of s' b)) (HEAD s) = map (\<lambda>b. task_load (task_of s b)) (HEAD s)"
    by (rule map_cong) (use a in \<open>auto simp: s' task_of_def\<close>)
  have "HEAD s' = HEAD s @ [a]" "task_of s' a = (P, C)"
    by (simp_all add: s' task_of_def new_task_def)
  then have "total_load s' = total_load s + task_load (P, C)"
    unfolding total_load_def by (simp add: same)
  moreover have "frac_valid nd \<and> utilisation nd = utilisation (numerator s, denominator s) + task_load (P, C)
      \<and> utilisation nd \<le> 693 / 1000"
    using adm.admit_Some [OF _ fits Some] books by (simp add: books_ok_def)
  ultimately show ?thesis
    using books by (simp add: books_ok_def s')
qed

lemma dereg_entry_books:
  assumes inv: "mp2_inv s" and books: "books_ok s"
    and fits: "event_fits (Deregister p) s" and r: "dereg_entry p s = Inr (r, s')"
  shows "books_ok s'"
  using r
proof (cases rule: dereg_entry_cases)
  case absent
  with books show ?thesis by simp
next
  case (found a t nd)
  have a: "a \<in> set (HEAD s)" and dist: "distinct (HEAD s)"
    using find_by_pid_SomeD [OF found(1)] inv by (auto simp: mp2_inv_def klist_inv_def)
  have same: "map (\<lambda>b. task_load (task_of s' b)) (remove1 a (HEAD s)) =
      map (\<lambda>b. task_load (task_of s b)) (remove1 a (HEAD s))"
    using dist by (intro map_cong refl) (auto simp: found(5) task_of_def)
  have hd: "HEAD s' = remove1 a (HEAD s)" by (simp add: found(5))
  have total: "total_load s' = total_load s - task_load (task_of s a)"
    unfolding total_load_def hd same using a by (rule sum_list_remove1)
  have "task_load (task_of s a) \<le> total_load s"
    unfolding total_load_def using a by (intro member_le_sum_list) (auto intro: task_load_nonneg)
  moreover have "release_fits (task_of s a) (numerator s, denominator s)"
    using fits found(1) by simp
  ultimately have "frac_valid nd \<and> utilisation nd = utilisation (numerator s, denominator s) - task_load (task_of s a)"
    using ac_release_exact [of "(numerator s, denominator s)" "task_of s a"] books found(2,4)
    by (simp add: books_ok_def task_of_def)
  with books total task_load_nonneg [of "task_of s a"] show ?thesis
    by (simp add: books_ok_def found(5))
qed

lemma mp2_trans_books:
  assumes "mp2_trans tab hz s e s'" and inv: "mp2_inv s" and "books_ok s" and "event_fits e s"
  shows "books_ok s'"
proof -
  have static: "same_static s s' \<Longrightarrow> books_ok s'"
    using same_static_books assms(2,3) by (auto simp: mp2_inv_def)
  from assms show ?thesis
    by (cases rule: mp2_trans.cases)
      (auto intro: reg_entry_books dereg_entry_books static yield_entry_static timer_static dispatch_fn_static)
qed

lemma reachable_books: "mp2_reachable tab hz event_fits s \<Longrightarrow> books_ok s"
proof (induction rule: mp2_reachable.induct)
  case (loaded k c s)
  then show ?case by (blast intro: books_ok_init)
next
  case (step s e s')
  then show ?case by (blast intro: mp2_trans_books reachable_inv)
qed

section \<open>Releases of a periodic task\<close>

text \<open>The effect of a yield on the struct of the task itself.\<close>

definition yielded :: "u32 \<Rightarrow> u64 \<Rightarrow> mp2_task_struct \<Rightarrow> mp2_task_struct" where
  "yielded hz j t =
     (if ts_next_period t = 0 then t\<lparr>ts_next_period := j + period_ticks hz (ts_period t), ts_state := READY\<rparr>
      else if j < ts_next_period t
      then t\<lparr>ts_state := SLEEPING, ts_tm := Some (ts_next_period t),
             ts_next_period := ts_next_period t + period_ticks hz (ts_period t)\<rparr>
      else t\<lparr>ts_next_period := ts_next_period t + period_ticks hz (ts_period t)\<rparr>)"

definition sleeps :: "u64 \<Rightarrow> mp2_task_struct \<Rightarrow> bool" where
  "sleeps j t = (ts_next_period t \<noteq> 0 \<and> j < ts_next_period t)"

lemma yielded_simps [simp]:
  "ts_pid (yielded hz j t) = ts_pid t" "ts_tsk (yielded hz j t) = ts_tsk t"
  "ts_period (yielded hz j t) = ts_period t" "ts_computation (yielded hz j t) = ts_computation t"
  by (simp_all add: yielded_def)

lemma trace_curr_ok: "mp2_inv s \<Longrightarrow> trace_curr s = Inr ()"
  by (auto simp: trace_curr_def mp2_inv_def klist_inv_def deref_def split: option.splits)

lemma yield_entry_effect:
  assumes inv: "mp2_inv s" and a: "find_by_pid s p = Inr (Some a)" and t: "slab s a = Some t"
    and k: "ts_tsk t = Some k" and alive: "sleeps j t \<Longrightarrow> k \<notin> exited s"
  shows "\<exists>s'. yield_entry hz j p s = Inr s' \<and> HEAD s' = HEAD s \<and> slab s' = (slab s)(a \<mapsto> yielded hz j t) \<and> exited s' = exited s
    \<and> curr_tsk s' = (if sleeps j t \<and> curr_tsk s = Some a then None else curr_tsk s)
    \<and> klog s' = klog s @ (if sleeps j t then [Set_task_uninterruptible k] else []) @ [Wake_up_dispatch, Schedule]"
proof -
  have tr: "trace_curr s = Inr ()" using inv by (rule trace_curr_ok)
  have kth: "dispatch_kth s = Kth_thread" using inv by (simp add: mp2_inv_def)
  consider "ts_next_period t = 0" | "sleeps j t" | "ts_next_period t \<noteq> 0" "\<not> j < ts_next_period t"
    by (auto simp: sleeps_def)
  then show ?thesis
  proof cases
    case 1
    then show ?thesis
      using tr kth a t by (simp add: yield_entry_def deref_def yielded_def sleeps_def)
  next
    case 2
    then have "ts_next_period t \<noteq> 0" "j < ts_next_period t" by (simp_all add: sleeps_def)
    moreover have "klog (clear_curr a s) = klog s" by (simp add: clear_curr_def)
    ultimately show ?thesis
      using 2 tr kth a t k alive
      by (simp add: yield_entry_def set_task_sleep_def mod_timer_def add_period_def deref_def yielded_def Let_def)
  next
    case 3
    then show ?thesis
      using tr kth a t by (simp add: yield_entry_def add_period_def deref_def yielded_def sleeps_def)
  qed
qed

text \<open>Putting the task of a dead process to sleep writes to a freed \<open>task_struct\<close>.\<close>

lemma yield_entry_dead:
  assumes "mp2_inv s" and "find_by_pid s p = Inr (Some a)" and "slab s a = Some t"
    and "ts_tsk t = Some k" and "k \<in> exited s" and "sleeps j t"
  shows "yield_entry hz j p s = Inl UseAfterFree"
  using trace_curr_ok [OF assms(1)] assms(2-6)
  by (simp add: yield_entry_def set_task_sleep_def deref_def task_ref_def Let_def sleeps_def)

text \<open>A process that yields at the times of a list, with nothing else happening in between.\<close>

fun yield_run :: "u32 \<Rightarrow> u32 \<Rightarrow> u64 list \<Rightarrow> mp2 \<Rightarrow> mp2 kres" where
  "yield_run hz p [] s = Inr s"
| "yield_run hz p (j # js) s = bindK (yield_entry hz j p s) (yield_run hz p js)"

lemma find_by_pid_upd:
  assumes "mp2_inv s" and "mp2_inv s'" and "find_by_pid s p = Inr (Some a)" and "HEAD s' = HEAD s"
    and "slab s' = (slab s)(a \<mapsto> u)" and "slab s a = Some t" and "ts_pid u = ts_pid t"
  shows "find_by_pid s' p = Inr (Some a)"
proof -
  have "(\<lambda>b. map_option ts_pid (slab s' b) = Some p) = (\<lambda>b. map_option ts_pid (slab s b) = Some p)"
    using assms(5-7) by (auto simp: fun_eq_iff)
  then show ?thesis
    using assms(1-4) find_by_pid_ok [of s p] find_by_pid_ok [of s' p] by (simp add: mp2_inv_def)
qed

lemma yield_run_grid:
  assumes "mp2_inv s" and "find_by_pid s p = Inr (Some a)" and "slab s a = Some t" and "ts_tsk t = Some k"
    and "k \<notin> exited s" and "ts_next_period t \<noteq> 0"
    and "unat (ts_next_period t) + length js * unat (period_ticks hz (ts_period t)) < 2 ^ 64"
  shows "\<exists>s' t'. yield_run hz p js s = Inr s' \<and> slab s' a = Some t'
    \<and> unat (ts_next_period t') = unat (ts_next_period t) + length js * unat (period_ticks hz (ts_period t))"
  using assms
proof (induction js arbitrary: s t)
  case Nil
  then show ?case by auto
next
  case (Cons j js)
  let ?P = "period_ticks hz (ts_period t)"
  obtain s1 where s1: "yield_entry hz j p s = Inr s1" "HEAD s1 = HEAD s" "slab s1 = (slab s)(a \<mapsto> yielded hz j t)"
    "exited s1 = exited s"
    using yield_entry_effect [OF Cons.prems(1-5), of hz j] by blast
  have inv1: "mp2_inv s1" using Cons.prems(1) s1(1) by (rule yield_entry_inv)
  have f1: "find_by_pid s1 p = Inr (Some a)"
    using Cons.prems(1) inv1 Cons.prems(2) s1(2,3) Cons.prems(3) by (rule find_by_pid_upd) simp
  have "ts_next_period (yielded hz j t) = ts_next_period t + ?P"
    using Cons.prems(6) by (simp add: yielded_def)
  moreover have "unat (ts_next_period t + ?P) = unat (ts_next_period t) + unat ?P"
    using Cons.prems(7) by (intro unat_add_fits) simp
  ultimately have np: "unat (ts_next_period (yielded hz j t)) = unat (ts_next_period t) + unat ?P" by simp
  have "ts_next_period (yielded hz j t) \<noteq> 0"
    using np unat_pos [OF Cons.prems(6)] by (metis add_gr_0 unat_0 less_irrefl)
  with Cons.IH [OF inv1 f1, of "yielded hz j t"] Cons.prems(4,5,7) s1 np show ?case
    by (auto simp: algebra_simps)
qed

section \<open>Unloading\<close>

lemma free_nodes_all:
  assumes "klist_inv (HEAD s) (slab s)" and "HEAD s = xs"
  shows "\<exists>s'. free_nodes xs s = Inr s' \<and> HEAD s' = [] \<and> slab s' = Map.empty \<and> curr_tsk s' = curr_tsk s
    \<and> klog s' = klog s \<and> mycache s' = mycache s \<and> dispatch_kth s' = dispatch_kth s"
  using assms
proof (induction xs arbitrary: s)
  case Nil
  then show ?case by (auto simp: klist_inv_def)
next
  case (Cons a xs)
  then obtain t where t: "slab s a = Some t" by (auto simp: klist_inv_def dom_def)
  have "klist_inv (HEAD (unlink_task a s)) (slab (unlink_task a s))" "HEAD (unlink_task a s) = xs"
    using Cons.prems by (auto simp: klist_inv_def)
  from Cons.IH [OF this] t show ?case
    by (simp add: freeone_def deref_def)
qed

lemma mp2_exit_effect:
  assumes "mp2_inv s"
  shows "\<exists>s'. mp2_exit s = Inr s' \<and> HEAD s' = [] \<and> slab s' = Map.empty \<and> curr_tsk s' = None
    \<and> klog s' = klog s @ [Proc_remove_file, Proc_remove_dir, Kthread_stop] @ (if mycache s then [Kmem_cache_destroy] else [])"
proof -
  let ?s = "(emit Proc_remove_dir (emit Proc_remove_file s))\<lparr>curr_tsk := None\<rparr>"
  have "klist_inv (HEAD ?s) (slab ?s)" "dispatch_kth s = Kth_thread" using assms by (simp_all add: mp2_inv_def)
  from free_nodes_all [OF this(1) refl] this(2) show ?thesis
    by (auto simp: mp2_exit_def freeall_def Let_def)
qed

section \<open>The task list as a registry\<close>

definition mp2_key :: "mp2 \<Rightarrow> addr \<Rightarrow> u32 option" where
  "mp2_key s a = map_option ts_pid (slab s a)"

definition mp2_linked :: "mp2 \<Rightarrow> bool" where
  "mp2_linked s = klist_inv (HEAD s) (slab s)"

interpretation tasks: registry mp2_linked HEAD mp2_key find_by_pid
  "\<lambda>a p. link_task a (new_task pid_task p period computation)" unlink_task
  for pid_task period computation
proof unfold_locales
  fix s :: mp2 and a :: addr and k :: u32
  assume inv: "mp2_linked s"
  show "(a \<in> set (HEAD s)) = (mp2_key s a \<noteq> None)"
    using inv by (auto simp: mp2_linked_def klist_inv_def mp2_key_def)
  show "distinct (HEAD s)" using inv by (simp add: mp2_linked_def klist_inv_def)
  show "find_by_pid s k = Inr (find (\<lambda>a. mp2_key s a = Some k) (HEAD s))"
    using inv find_by_pid_ok by (simp add: mp2_linked_def mp2_key_def)
  show "mp2_linked (unlink_task a s)"
    using inv by (simp add: mp2_linked_def unlink_task_def klist_inv_del)
  show "HEAD (unlink_task a s) = remove1 a (HEAD s)" by simp
  show "mp2_key (unlink_task a s) = (mp2_key s)(a := None)" by (auto simp: mp2_key_def)
  assume fresh: "mp2_key s a = None"
  show "mp2_linked (link_task a (new_task pid_task k period computation) s)"
    using inv fresh by (simp add: mp2_linked_def link_task_def klist_inv_add mp2_key_def)
  show "HEAD (link_task a (new_task pid_task k period computation) s) = HEAD s @ [a]" by simp
  show "mp2_key (link_task a (new_task pid_task k period computation) s) = (mp2_key s)(a := Some k)"
    by (auto simp: mp2_key_def new_task_def)
qed

end
