(* ===== verification/MP2_Correct.thy ===== *)
theory MP2_Correct
  imports MP2
begin

text \<open>
  The properties of the rate-monotonic scheduler: the invariant of its state machine, the policy
  of the dispatcher, when handlers fault and when they do not, the admission books, the periodic
  releases, the round trip of registering and deregistering, unloading, and the inputs on which the
  code departs from what it is meant to do.
\<close>

section \<open>Lemmas the properties share\<close>

lemma dereg_entry_ok: "mp2_inv s \<Longrightarrow> ok (dereg_entry p s)"
  by (auto simp: dereg_entry_def find_by_pid_ok mp2_inv_def klist_inv_def deref_def freeone_def Let_def
      find_Some_iff split: option.splits prod.splits)

lemma yield_entry_ok:
  assumes "mp2_inv s" and "tasks_live s" and "find_by_pid s p \<noteq> Inr None"
  shows "ok (yield_entry hz j p s)"
proof -
  obtain a where a: "find_by_pid s p = Inr (Some a)"
    using assms(1,3) by (cases "find (\<lambda>a. map_option ts_pid (slab s a) = Some p) (HEAD s)")
      (auto simp: find_by_pid_ok mp2_inv_def)
  then obtain t where t: "slab s a = Some t" using find_by_pid_SomeD by blast
  then obtain k where "ts_tsk t = Some k" "k \<notin> exited s" using assms(2) by (auto elim: tasks_liveD)
  then show ?thesis using yield_entry_effect [OF assms(1) a t, of k j hz] by auto
qed

lemma tm_callback_ok: "mp2_inv s \<Longrightarrow> slab s a \<noteq> None \<Longrightarrow> ok (mp2_tm_callback a s)"
  by (auto simp: mp2_tm_callback_def deref_def mp2_inv_def)

lemma reg_entry_ok: "mycache s \<Longrightarrow> ok (reg_entry tab (Some a) p P C s)"
  by (simp add: reg_entry_def Let_def split: prod.split)

text \<open>Only living processes register, and no process ends while it is registered.\<close>

fun live_registration :: "(u32 \<Rightarrow> ktask option) \<Rightarrow> mp2_event \<Rightarrow> mp2 \<Rightarrow> bool" where
  "live_registration tab (Register p P C a) s = (pid_now tab s p \<noteq> None)"
| "live_registration tab (Exit k) s = (\<forall>a t. slab s a = Some t \<longrightarrow> ts_tsk t \<noteq> Some k)"
| "live_registration tab _ s = True"

lemma tasks_live_init: "mp2_init f c k = Inr (Inr s) \<Longrightarrow> k \<noteq> Kth_null \<Longrightarrow> tasks_live s"
  using mp2_init_loaded by (simp add: tasks_live_def)

lemma tasks_live_static:
  assumes "same_static s s'" and "tasks_live s"
  shows "tasks_live s'"
proof -
  have "map_option ts_tsk (slab s' a) = map_option ts_tsk (slab s a)" for a
    using assms(1) by (rule same_static_map) (simp add: static_of_def)
  moreover have "exited s' = exited s" using assms(1) by (simp add: same_static_def)
  ultimately show ?thesis
    using assms(2) unfolding tasks_live_def by (metis map_option_eq_Some)
qed

lemma mp2_trans_live:
  assumes "mp2_trans tab hz s e s'" and live: "tasks_live s" and "live_registration tab e s"
  shows "tasks_live s'"
proof -
  have reg: "tasks_live s'"
    if r: "reg_entry (pid_now tab s) (Some a) p P C s = Inr (r, s')" and p: "pid_now tab s p = Some k" for a p P C r k
    using r
  proof (cases rule: reg_entry_cases)
    case (linked nd)
    have "k \<notin> exited s" using p by simp
    with linked live p show ?thesis by (auto simp: tasks_live_def new_task_def mp2_find_task_by_pid_def)
  qed (use live in simp)
  have dereg: "tasks_live s'" if "dereg_entry p s = Inr (r, s')" for p r
    using that live by (cases rule: dereg_entry_cases) (auto simp: tasks_live_def)
  have static: "tasks_live s'" if "same_static s s'" using that live by (rule tasks_live_static)
  have exit: "tasks_live (s\<lparr>exited := insert k (exited s)\<rparr>)"
    if "\<forall>a t. slab s a = Some t \<longrightarrow> ts_tsk t \<noteq> Some k" for k
    using that live unfolding tasks_live_def by fastforce
  from assms(1,3) show ?thesis
    by (cases rule: mp2_trans.cases)
      (auto simp del: pid_now_eq intro: static yield_entry_static timer_static dispatch_fn_static exit dest: reg dereg)
qed

text \<open>What is left of a task whose process has ended.\<close>

lemma dereg_unlinks:
  assumes "mp2_inv s"
  shows "\<exists>r s'. dereg_entry p s = Inr (r, s') \<and> (\<forall>a. find_by_pid s p = Inr (Some a) \<longrightarrow> a \<notin> set (HEAD s'))"
proof -
  obtain r s' where d: "dereg_entry p s = Inr (r, s')"
    using dereg_entry_ok [OF assms, of p] by (auto elim: okE)
  then have "a \<notin> set (HEAD s')" if "find_by_pid s p = Inr (Some a)" for a
    by (rule dereg_entry_cases) (use that assms in \<open>auto simp: mp2_inv_def klist_inv_def\<close>)
  with d show ?thesis by blast
qed

lemma rm_first_unique:
  assumes "rm_first h bound xs a" and "rm_first h bound xs b"
  shows "a = b"
proof (rule ccontr)
  assume ne: "a \<noteq> b"
  obtain ys zs where a: "xs = ys @ a # zs" "runnable h bound a"
    "\<forall>c \<in> set ys. runnable h bound c \<longrightarrow> period_of h a < period_of h c"
    "\<forall>c \<in> set zs. runnable h bound c \<longrightarrow> period_of h a \<le> period_of h c"
    using assms(1) by (auto simp: rm_first_def)
  obtain ys' zs' where b: "xs = ys' @ b # zs'" "runnable h bound b"
    "\<forall>c \<in> set ys'. runnable h bound c \<longrightarrow> period_of h b < period_of h c"
    "\<forall>c \<in> set zs'. runnable h bound c \<longrightarrow> period_of h b \<le> period_of h c"
    using assms(2) by (auto simp: rm_first_def)
  have "b \<in> set ys \<or> b \<in> set zs" "a \<in> set ys' \<or> a \<in> set zs'"
    using arg_cong [OF a(1), of set] arg_cong [OF b(1), of set] ne by auto
  then have "b \<notin> set ys" "a \<notin> set ys'" using a b by fastforce+
  moreover have "ys @ a # zs = ys' @ b # zs'" using a(1) b(1) by simp
  ultimately show False
    using ne by (auto simp: append_eq_append_conv2 Cons_eq_append_conv append_eq_Cons_conv)
qed

lemma dispatch_fn_pick:
  assumes "mp2_inv s" and "rm_first (slab s) INT_MAX (HEAD s) n" and "curr_tsk s \<noteq> Some n"
  shows "dispatch_fn s =
    bindK (bindK (case curr_tsk s of None \<Rightarrow> Inr s | Some c \<Rightarrow> set_old_task c s) (set_new_task n))
      (\<lambda>s1. Inr (emit Schedule (emit Set_current_interruptible s1)))"
proof -
  have "\<exists>b \<in> set (HEAD s). runnable (slab s) INT_MAX b" using rm_first_in [OF assms(2)] by blast
  then have "pick_next (slab s) (HEAD s) INT_MAX None = Inr (Some n)"
    using pick_next_linked [OF assms(1)] rm_first_unique [OF assms(2)] by metis
  with assms(3) show ?thesis by (simp add: dispatch_fn_def)
qed

lemma dispatch_fn_dead_curr:
  assumes "mp2_inv s" and "rm_first (slab s) INT_MAX (HEAD s) n" and "curr_tsk s = Some a" and "n \<noteq> a"
    and "slab s a = Some t" and "ts_tsk t = Some k" and "k \<in> exited s"
  shows "dispatch_fn s = Inl UseAfterFree"
  using dispatch_fn_pick [OF assms(1,2)] assms(3-7)
  by (simp add: set_old_task_def deref_def task_ref_def)

lemma dispatch_fn_dead:
  assumes inv: "mp2_inv s" and n: "rm_first (slab s) INT_MAX (HEAD s) a" "curr_tsk s \<noteq> Some a"
    and t: "slab s a = Some t" "ts_tsk t = Some k" "k \<in> exited s"
    and others: "\<And>c u. slab s c = Some u \<Longrightarrow> ts_tsk u \<noteq> None"
  shows "dispatch_fn s = Inl UseAfterFree"
proof (cases "curr_tsk s")
  case None
  with dispatch_fn_pick [OF inv n] t show ?thesis by (simp add: set_new_task_def deref_def task_ref_def)
next
  case (Some c)
  then have "c \<in> dom (slab s)" using inv klist_dom [OF inv] by (simp add: mp2_inv_def)
  then obtain u where u: "slab s c = Some u" by blast
  then obtain l where l: "ts_tsk u = Some l" using others by blast
  show ?thesis
  proof (cases "l \<in> exited s")
    case True
    with dispatch_fn_dead_curr [OF inv n(1) Some _ u l] n(2) Some show ?thesis by auto
  next
    case False
    with dispatch_fn_pick [OF inv n] t Some u l n(2) show ?thesis
      by (simp add: set_new_task_def set_old_task_def deref_def task_ref_def Let_def)
  qed
qed

lemma reachable_live: "mp2_reachable tab hz (live_registration tab) s \<Longrightarrow> tasks_live s"
  by (induction rule: mp2_reachable.induct) (blast intro: tasks_live_init mp2_trans_live)+

section \<open>A sample run\<close>

text \<open>
  Two processes, pid 7 with period 500 ms and pid 8 with period 300 ms, on a kernel with
  \<open>USER_HZ = 100\<close>.  Both register and pid 7 yields for the first time at tick 1000.
\<close>

definition sample_tab :: "u32 \<Rightarrow> ktask option" where
  "sample_tab p = (if p = 7 then Some 70 else if p = 8 then Some 80 else None)"

definition sample0 :: mp2 where
  "sample0 = \<lparr>HEAD = [], slab = Map.empty, curr_tsk = None, numerator = 0, denominator = 0, mycache = True,
     dispatch_kth = Kth_thread, exited = {},
     klog = [Proc_mkdir, Proc_create, Kmem_cache_create, Kthread_create, Wake_up_dispatch]\<rparr>"

definition sample1 :: mp2 where
  "sample1 = sample0\<lparr>HEAD := [1], slab := [1 \<mapsto> new_task sample_tab 7 500 86], numerator := 86, denominator := 500\<rparr>"

definition sample2 :: mp2 where
  "sample2 = sample1\<lparr>HEAD := [1, 2], slab := (slab sample1)(2 \<mapsto> new_task sample_tab 8 300 43),
     numerator := 47300, denominator := 150000\<rparr>"

definition sample3 :: mp2 where
  "sample3 = sample2\<lparr>slab := (slab sample2)(1 \<mapsto> (new_task sample_tab 7 500 86)\<lparr>ts_next_period := 1050, ts_state := READY\<rparr>),
     klog := klog sample2 @ [Wake_up_dispatch, Schedule]\<rparr>"

lemmas sample_defs = sample0_def sample1_def sample2_def sample3_def sample_tab_def new_task_def
  mp2_find_task_by_pid_def

lemma sample0_init: "mp2_init True True Kth_thread = Inr (Inr sample0)"
  by (simp add: mp2_init_def init_mykernel_def init_slab_def emit_def sample0_def)

lemma sample0_reachable: "mp2_reachable tab hz good sample0"
  by (rule mp2_reachable.loaded [OF _ sample0_init]) simp

lemma sample1_reg: "reg_entry sample_tab (Some 1) 7 500 86 sample0 = Inr (0, sample1)"
  by (simp add: reg_entry_def admission_control_def sample_defs link_task_def list_add_tail_def
      cache_alloc_from_def)

lemma sample2_reg: "reg_entry sample_tab (Some 2) 8 300 43 sample1 = Inr (0, sample2)"
  by (simp add: reg_entry_def admission_control_def sample_defs link_task_def list_add_tail_def
      cache_alloc_from_def)

lemma sample_now: "pid_now sample_tab sample0 = sample_tab" "pid_now sample_tab sample1 = sample_tab"
  by (simp_all add: sample0_def sample1_def)

lemma sample1_reg_now: "reg_entry (pid_now sample_tab sample0) (Some 1) 7 500 86 sample0 = Inr (0, sample1)"
  by (simp only: sample_now sample1_reg)

lemma sample2_reg_now: "reg_entry (pid_now sample_tab sample1) (Some 2) 8 300 43 sample1 = Inr (0, sample2)"
  by (simp only: sample_now sample2_reg)

lemma sample3_yield: "yield_entry 100 1000 7 sample2 = Inr sample3"
  by (simp add: yield_entry_def trace_curr_def find_by_pid_def deref_def period_ticks_def sample_defs
      set_node_def emit_def wake_dispatch_def on_dispatch_kth_def)

lemma sample_reachable:
  assumes "\<And>a s. good (Yield 1000 a) s" and "good (Register 7 500 86 1) sample0"
    and "good (Register 8 300 43 2) sample1"
  shows "mp2_reachable sample_tab 100 good sample3"
proof -
  have "mp2_reachable sample_tab 100 good sample0" by (rule sample0_reachable)
  then have "mp2_reachable sample_tab 100 good sample1"
    using assms(2) by (rule mp2_reachable.step) (rule mp2_trans.register [OF _ sample1_reg_now], simp add: sample0_def)
  then have "mp2_reachable sample_tab 100 good sample2"
    using assms(3) by (rule mp2_reachable.step) (rule mp2_trans.register [OF _ sample2_reg_now], simp add: sample1_def)
  then show ?thesis
    using assms(1) by (rule mp2_reachable.step) (rule mp2_trans.yield [OF sample3_yield])
qed

text \<open>Pid 7 has finished its first job at tick 1010 and sleeps until its release at 1050.\<close>

definition sample4 :: mp2 where
  "sample4 = sample3\<lparr>slab := (slab sample3)(1 \<mapsto> (new_task sample_tab 7 500 86)\<lparr>ts_state := SLEEPING,
     ts_tm := Some 1050, ts_next_period := 1100\<rparr>),
     klog := klog sample3 @ [Set_task_uninterruptible 70, Wake_up_dispatch, Schedule]\<rparr>"

lemma sample4_yield: "yield_entry 100 1010 7 sample3 = Inr sample4"
  by (simp add: yield_entry_def trace_curr_def find_by_pid_def deref_def period_ticks_def sample_defs
      set_node_def emit_def wake_dispatch_def on_dispatch_kth_def task_ref_def set_task_sleep_def mod_timer_def add_period_def clear_curr_def sample4_def)

lemma sample4_reachable: "mp2_reachable sample_tab 100 (\<lambda>_ _. True) sample4"
  by (rule mp2_reachable.step [OF sample_reachable TrueI mp2_trans.yield [OF sample4_yield]]) simp_all

lemma sample_live: "mp2_reachable sample_tab 100 (live_registration sample_tab) sample3"
  by (rule sample_reachable) (simp_all add: sample_defs)

lemma sample_fits: "mp2_reachable sample_tab 100 event_fits sample3"
  by (rule sample_reachable) (simp_all add: admit_fits_def sample_defs)

section \<open>Properties\<close>

text \<open>
  C6: In every reachable state of the scheduler module the list links exactly the allocated task
  structs, each once; the current-task pointer points to a linked struct; at most the current
  task is marked running; and every activated task that sleeps has a pending timer.
\<close>

theorem reachable_states_well_formed:
  assumes "mp2_reachable tab hz (\<lambda>_ _. True) s"
  shows "distinct (HEAD s) \<and> dom (slab s) = set (HEAD s)
    \<and> (\<forall>a. curr_tsk s = Some a \<longrightarrow> slab s a \<noteq> None)
    \<and> (\<forall>a t. slab s a = Some t \<longrightarrow> ts_state t = RUNNING \<longrightarrow> curr_tsk s = Some a)
    \<and> (\<forall>a t. slab s a = Some t \<longrightarrow> ts_state t = SLEEPING \<longrightarrow> ts_next_period t \<noteq> 0 \<longrightarrow> ts_tm t \<noteq> None)"
  using reachable_inv [OF assms] by (auto simp: mp2_inv_def klist_inv_def)

theorem reachable_states_well_formed_witness:
  "mp2_reachable sample_tab 100 (\<lambda>_ _. True) sample3 \<and> distinct (HEAD sample3)
   \<and> dom (slab sample3) = set (HEAD sample3)"
proof -
  have r: "mp2_reachable sample_tab 100 (\<lambda>_ _. True) sample3" by (rule sample_reachable) simp_all
  from r reachable_states_well_formed [OF r] show ?thesis by blast
qed

text \<open>
  C1: The dispatcher implements the rate-monotonic policy.  When some registered task is ready or
  running (and its period is below \<open>INT_MAX\<close>), a wake-up of the dispatcher returns without a fault
  and makes the first task of least period among them the current one; no other task is left
  running; and if that is a switch, the old task is demoted to \<open>SCHED_NORMAL\<close> before the new one is
  woken and promoted to \<open>SCHED_FIFO\<close> with priority 99.
\<close>

theorem dispatch_rate_monotonic:
  assumes "mp2_reachable tab hz (live_registration tab) s"
    and "\<exists>b \<in> set (HEAD s). runnable (slab s) INT_MAX b"
  shows "\<exists>s' a. dispatch_fn s = Inr s' \<and> rm_first (slab s) INT_MAX (HEAD s) a \<and> curr_tsk s' = Some a
    \<and> (\<forall>b t. slab s' b = Some t \<longrightarrow> ts_state t = RUNNING \<longrightarrow> b = a)
    \<and> (if curr_tsk s = Some a
       then slab s' = slab s \<and> klog s' = klog s @ [Set_current_interruptible, Schedule]
       else \<exists>t k. slab s a = Some t \<and> ts_tsk t = Some k
         \<and> slab s' = (demoted_slab s)(a \<mapsto> t\<lparr>ts_state := RUNNING\<rparr>)
         \<and> klog s' = klog s @ demote_calls s @ [Wake_up_process k, Sched_setscheduler k SCHED_FIFO 99,
             Set_current_interruptible, Schedule])"
proof -
  have inv: "mp2_inv s" using assms(1) by (rule reachable_inv)
  obtain s' where s': "dispatch_fn s = Inr s'"
    using dispatch_fn_ok [OF inv reachable_live [OF assms(1)]] by (rule okE)
  have "mp2_inv s'" using inv s' by (rule dispatch_fn_inv)
  with dispatch_fn_switch [OF inv s' assms(2)] s' show ?thesis
    unfolding mp2_inv_def by (metis option.inject)
qed

theorem dispatch_rate_monotonic_witness:
  "\<exists>s'. dispatch_fn sample3 = Inr s' \<and> curr_tsk s' = Some 1"
proof -
  have run: "runnable (slab sample3) INT_MAX 1" by (simp add: runnable_def sample_defs INT_MAX_def)
  have other: "\<not> runnable (slab sample3) INT_MAX 2" by (simp add: runnable_def sample_defs)
  have "\<exists>b \<in> set (HEAD sample3). runnable (slab sample3) INT_MAX b"
    using run by (simp add: sample_defs)
  from dispatch_rate_monotonic [OF sample_live this] obtain s' a where
    "dispatch_fn sample3 = Inr s'" "rm_first (slab sample3) INT_MAX (HEAD sample3) a" "curr_tsk s' = Some a"
    by blast
  moreover from this have "a \<in> {1, 2}" "runnable (slab sample3) INT_MAX a"
    using rm_first_in by (fastforce simp: sample_defs)+
  ultimately show ?thesis using other by auto
qed

text \<open>
  C11: Absence of faults.  As long as only living processes register and no process ends while it
  is registered, no handler of the module follows a null, freed or error pointer, be it to a task
  struct, to the kernel task of a process or to the dispatcher thread: the dispatcher,
  deregistration of any pid, a yield of a registered pid, the timer callback of a linked task and
  unloading all return, and so does a registration when the slab cache exists and has room.
\<close>

theorem handlers_never_fault:
  assumes "mp2_reachable tab hz (live_registration tab) s"
  shows "ok (dispatch_fn s) \<and> ok (dereg_entry p s)
    \<and> (find_by_pid s p \<noteq> Inr None \<longrightarrow> ok (yield_entry hz j p s))
    \<and> (a \<in> set (HEAD s) \<longrightarrow> ok (mp2_tm_callback a s)) \<and> ok (mp2_exit s)
    \<and> (mycache s \<longrightarrow> ok (reg_entry (pid_now tab s) (Some b) p P C s))"
proof -
  have inv: "mp2_inv s" and live: "tasks_live s"
    using assms by (rule reachable_inv, rule reachable_live)
  have "a \<in> set (HEAD s) \<Longrightarrow> slab s a \<noteq> None" using klist_dom [OF inv] by auto
  with inv live mp2_exit_effect [OF inv] show ?thesis
    by (auto simp: dispatch_fn_ok dereg_entry_ok yield_entry_ok tm_callback_ok reg_entry_ok)
qed

theorem handlers_never_fault_witness:
  "ok (dispatch_fn sample3) \<and> ok (dereg_entry 8 sample3) \<and> ok (yield_entry 100 2000 8 sample3)
   \<and> ok (mp2_tm_callback 1 sample3) \<and> ok (mp2_exit sample3)
   \<and> ok (reg_entry (pid_now sample_tab sample3) (Some 3) 8 100 1 sample3)"
proof -
  have "find_by_pid sample3 8 \<noteq> Inr None" "1 \<in> set (HEAD sample3)" "mycache sample3"
    by (simp_all add: find_by_pid_def deref_def sample_defs)
  with handlers_never_fault [OF sample_live, of 8 2000 1 3 100 1] show ?thesis by blast
qed

text \<open>
  C37: A process that ends without deregistering leaves a dangling pointer.  The module keeps the
  \<open>task_struct\<close> of a registered process without taking a reference and is not told when the process
  ends.  From then on the dispatcher uses freed memory as soon as it chooses the task, or replaces
  it when it is the current one, and so does a yield for its pid that would put it to sleep;
  deregistering the pid still works.
\<close>

theorem exited_task_is_used:
  assumes "mp2_reachable tab hz (live_registration tab) s" and "slab s a = Some t" and "ts_tsk t = Some k"
    and "mp2_trans tab hz s (Exit k) s'"
  shows "(rm_first (slab s) INT_MAX (HEAD s) a \<longrightarrow> curr_tsk s \<noteq> Some a \<longrightarrow> dispatch_fn s' = Inl UseAfterFree)
    \<and> (rm_first (slab s) INT_MAX (HEAD s) b \<longrightarrow> curr_tsk s = Some a \<longrightarrow> b \<noteq> a \<longrightarrow>
        dispatch_fn s' = Inl UseAfterFree)
    \<and> (find_by_pid s p = Inr (Some a) \<longrightarrow> ts_next_period t \<noteq> 0 \<longrightarrow> j < ts_next_period t \<longrightarrow>
        yield_entry hz' j p s' = Inl UseAfterFree)
    \<and> (\<exists>r s2. dereg_entry p s' = Inr (r, s2) \<and> (find_by_pid s p = Inr (Some a) \<longrightarrow> a \<notin> set (HEAD s2)))"
proof -
  have inv: "mp2_inv s" and live: "tasks_live s"
    using assms(1) by (rule reachable_inv, rule reachable_live)
  have s': "s' = s\<lparr>exited := insert k (exited s)\<rparr>"
    using assms(4) by (cases rule: mp2_trans.cases) simp
  have "mp2_inv s'" and dead: "k \<in> exited s'" and same: "slab s' = slab s" "HEAD s' = HEAD s" "curr_tsk s' = curr_tsk s"
    and find: "find_by_pid s' = find_by_pid s"
    using inv by (simp_all add: s' find_by_pid_def fun_eq_iff)
  moreover have others: "ts_tsk u \<noteq> None" if "slab s' c = Some u" for c u
    using live that by (auto simp: s' tasks_live_def)
  ultimately show ?thesis
    using dispatch_fn_dead [of s' a t k] dispatch_fn_dead_curr [of s' b a t k] yield_entry_dead [of s' p a t k j hz']
      dereg_unlinks [of s' p] assms(2,3)
    by (auto simp: sleeps_def)
qed

text \<open>Pid 7 ends after its first yield; the dispatcher is about to choose it.\<close>

theorem exited_task_is_used_witness:
  "dispatch_fn (sample3\<lparr>exited := {70}\<rparr>) = Inl UseAfterFree
   \<and> yield_entry 100 1010 7 (sample3\<lparr>exited := {70}\<rparr>) = Inl UseAfterFree"
proof -
  let ?t = "(new_task sample_tab 7 500 86)\<lparr>ts_next_period := 1050, ts_state := READY\<rparr>"
  have t: "slab sample3 1 = Some ?t" by (simp add: sample3_def)
  have k: "ts_tsk ?t = Some 70" by (simp add: sample_defs)
  have "exited sample3 = {}" by (simp add: sample_defs)
  then have e: "mp2_trans sample_tab 100 sample3 (Exit 70) (sample3\<lparr>exited := {70}\<rparr>)"
    using mp2_trans.exit [of sample_tab 100 sample3 70] by simp
  have "rm_first (slab sample3) INT_MAX (HEAD sample3) 1"
    unfolding rm_first_def
    by (rule exI [of _ "[]"], rule exI [of _ "[2]"]) (simp add: runnable_def sample_defs INT_MAX_def)
  moreover have "curr_tsk sample3 \<noteq> Some 1" "find_by_pid sample3 7 = Inr (Some 1)" "ts_next_period ?t = 1050"
    by (simp_all add: sample_defs find_by_pid_def deref_def)
  ultimately show ?thesis
    using exited_task_is_used [OF sample_live t k e, of 1 7 1010 100] by simp
qed

text \<open>
  C9: The admission books balance.  In every state reached without a wrap-around in the admission
  arithmetic, the fraction kept in the globals is exactly the sum of computation over period of
  the registered tasks, it is at most 0.693, and the task set satisfies the Liu and Layland bound
  for its size, the sufficient condition for rate-monotonic schedulability.
\<close>

theorem admission_books_balance:
  assumes "mp2_reachable tab hz event_fits s"
  shows "utilisation (numerator s, denominator s) = (\<Sum>a\<leftarrow>HEAD s. task_load (task_of s a))
    \<and> utilisation (numerator s, denominator s) \<le> 693 / 1000
    \<and> (HEAD s \<noteq> [] \<longrightarrow> (\<Sum>a\<leftarrow>HEAD s. task_load (task_of s a))
         \<le> real (length (HEAD s)) * (2 powr (1 / real (length (HEAD s))) - 1))"
  using reachable_books [OF assms] limit_le_liu_layland [of "length (HEAD s)"]
  by (auto simp: books_ok_def total_load_def)

theorem admission_books_balance_witness:
  "utilisation (47300, 150000) = task_load (500, 86) + task_load (300, 43)"
  using admission_books_balance [OF sample_fits]
  by (simp add: sample_defs task_of_def)

text \<open>
  C22: Registration decides exactly.  When no product wraps, a task is accepted (return value 0) if
  and only if the recorded utilisation plus its own load stays within 0.693.  An accepted task is
  linked at the tail, asleep, without a timer and not yet activated; a refused one (return value
  1) leaves the module as it was.  If the slab cache could not be created when the module was
  loaded, an accepted registration instead dereferences a null pointer.
\<close>

theorem registration_decides_exactly:
  assumes "frac_valid (numerator s, denominator s)" and "admit_fits (P, C) (numerator s, denominator s)"
  shows "\<exists>s'. reg_entry tab (Some a) p P C s =
      (if utilisation (numerator s, denominator s) + task_load (P, C) \<le> 693 / 1000
       then if mycache s then Inr (0, s') else Inl NullDeref else Inr (1, s))
    \<and> HEAD s' = HEAD s @ [a]
    \<and> slab s' = (slab s)(a \<mapsto> \<lparr>ts_tsk = tab p, ts_tm = None, ts_period = P, ts_computation = C,
                              ts_pid = p, ts_state = SLEEPING, ts_next_period = 0\<rparr>)
    \<and> curr_tsk s' = curr_tsk s"
proof (cases "utilisation (numerator s, denominator s) + task_load (P, C) \<le> 693 / 1000")
  case True
  with ac_admit_exact(1) [OF assms] obtain nd where "ac_admit (P, C) (numerator s, denominator s) = Some nd"
    by simp
  with True show ?thesis
    by (cases nd) (auto simp: reg_entry_def admission_control_admit Let_def new_task_def mp2_find_task_by_pid_def
        cache_alloc_from_def intro!: exI [of _ "link_task a \<lparr>ts_tsk = tab p, ts_tm = None, ts_period = P,
          ts_computation = C, ts_pid = p, ts_state = SLEEPING, ts_next_period = 0\<rparr> s"])
next
  case False
  with ac_admit_exact(1) [OF assms] have "ac_admit (P, C) (numerator s, denominator s) = None" by simp
  with False show ?thesis
    by (simp add: reg_entry_def admission_control_admit Let_def) (auto intro!: exI [of _ "link_task a
      \<lparr>ts_tsk = tab p, ts_tm = None, ts_period = P, ts_computation = C, ts_pid = p, ts_state = SLEEPING,
       ts_next_period = 0\<rparr> s"])
qed

theorem registration_decides_exactly_witness:
  "\<exists>s'. reg_entry sample_tab (Some 3) 9 100 86 sample2 =
      (if utilisation (47300, 150000) + task_load (100, 86) \<le> 693 / 1000 then Inr (0, s') else Inr (1, sample2))
    \<and> HEAD s' = [1, 2, 3]"
  using registration_decides_exactly [of sample2 100 86 sample_tab 3 9]
  by (auto simp: frac_valid_def admit_fits_def sample_defs)

text \<open>
  C23: A yield of a registered task.  Unless it would put the task of a dead process to sleep, which
  uses freed memory, it wakes the dispatcher and calls the scheduler.  The first yield activates the
  task: it becomes ready and its next release is one period away.  A later yield before the next
  release puts the task to sleep with its timer set to that release and gives up the processor; a
  yield after it (an overrun) leaves the task as it is.  In both cases the following release moves on by one period.  No other task changes.
\<close>

theorem yield_behaviour:
  assumes "mp2_reachable tab hz good s" and "find_by_pid s p = Inr (Some a)" and "slab s a = Some t"
    and "ts_tsk t = Some k"
  shows "\<exists>s'. yield_entry hz' j p s =
        (if ts_next_period t \<noteq> 0 \<and> j < ts_next_period t \<and> k \<in> exited s then Inl UseAfterFree else Inr s')
    \<and> HEAD s' = HEAD s
    \<and> slab s' = (slab s)(a \<mapsto>
        (if ts_next_period t = 0
         then t\<lparr>ts_next_period := j + period_ticks hz' (ts_period t), ts_state := READY\<rparr>
         else if j < ts_next_period t
         then t\<lparr>ts_state := SLEEPING, ts_tm := Some (ts_next_period t),
                ts_next_period := ts_next_period t + period_ticks hz' (ts_period t)\<rparr>
         else t\<lparr>ts_next_period := ts_next_period t + period_ticks hz' (ts_period t)\<rparr>))
    \<and> curr_tsk s' = (if ts_next_period t \<noteq> 0 \<and> j < ts_next_period t \<and> curr_tsk s = Some a
                      then None else curr_tsk s)
    \<and> klog s' = klog s @ (if ts_next_period t \<noteq> 0 \<and> j < ts_next_period t
                          then [Set_task_uninterruptible k] else []) @ [Wake_up_dispatch, Schedule]"
proof -
  have inv: "mp2_inv s" using assms(1) by (rule reachable_inv)
  show ?thesis
  proof (cases "sleeps j t \<and> k \<in> exited s")
    case True
    then have fault: "yield_entry hz' j p s = Inl UseAfterFree"
      using yield_entry_dead [OF inv assms(2-4)] by simp
    have "\<exists>s' :: mp2. HEAD s' = HEAD s \<and> slab s' = x \<and> curr_tsk s' = y \<and> klog s' = z" for x y z
      by (rule exI [of _ "s\<lparr>slab := x, curr_tsk := y, klog := z\<rparr>"]) simp
    with fault True show ?thesis by (simp add: sleeps_def)
  next
    case False
    then show ?thesis
      using yield_entry_effect [OF inv assms(2-4), of j hz'] unfolding yielded_def sleeps_def by auto
  qed
qed

theorem yield_behaviour_witness:
  "\<exists>s'. yield_entry 100 1010 7 sample3 = Inr s' \<and> map_option ts_tm (slab s' 1) = Some (Some 1050)"
proof -
  have f: "find_by_pid sample3 7 = Inr (Some 1)" by (simp add: find_by_pid_def deref_def sample_defs)
  have t: "slab sample3 1 = Some ((new_task sample_tab 7 500 86)\<lparr>ts_next_period := 1050, ts_state := READY\<rparr>)"
    by (simp add: sample3_def)
  have k: "ts_tsk ((new_task sample_tab 7 500 86)\<lparr>ts_next_period := 1050, ts_state := READY\<rparr>) = Some 70"
    by (simp add: sample_defs)
  have "exited sample3 = {}" by (simp add: sample_defs)
  with yield_behaviour [OF sample_live f t k, of 100 1010] show ?thesis
    by (auto simp: new_task_def)
qed

text \<open>
  C24: Releases do not drift.  However late or early an activated task of a living process yields, as
  long as the clock does not wrap its next release after \<open>n\<close> yields is exactly \<open>n\<close> periods after the
  one it started from, and no yield of the sequence faults.
\<close>

theorem releases_do_not_drift:
  assumes "mp2_reachable tab hz good s" and "find_by_pid s p = Inr (Some a)" and "slab s a = Some t"
    and "ts_tsk t = Some k" and "k \<notin> exited s" and "ts_next_period t \<noteq> 0"
    and "unat (ts_next_period t) + length js * unat (period_ticks hz' (ts_period t)) < 2 ^ 64"
  shows "\<exists>s' t'. yield_run hz' p js s = Inr s' \<and> slab s' a = Some t'
    \<and> unat (ts_next_period t') = unat (ts_next_period t) + length js * unat (period_ticks hz' (ts_period t))"
  using reachable_inv [OF assms(1)] assms(2-7) by (rule yield_run_grid)

theorem releases_do_not_drift_witness:
  "\<exists>s' t'. yield_run 100 7 [1010, 1200, 1100] sample3 = Inr s' \<and> slab s' 1 = Some t'
    \<and> unat (ts_next_period t') = 1200"
proof -
  let ?t = "(new_task sample_tab 7 500 86)\<lparr>ts_next_period := 1050, ts_state := READY\<rparr>"
  have f: "find_by_pid sample3 7 = Inr (Some 1)" by (simp add: find_by_pid_def deref_def sample_defs)
  have t: "slab sample3 1 = Some ?t" by (simp add: sample3_def)
  have k: "ts_tsk ?t = Some 70" by (simp add: sample_defs)
  have x: "70 \<notin> exited sample3" by (simp add: sample_defs)
  have n: "ts_next_period ?t \<noteq> 0" by simp
  have P: "unat (period_ticks 100 (ts_period ?t)) = 50" by (simp add: period_ticks_def new_task_def)
  have b: "unat (ts_next_period ?t) + length [1010, 1200, 1100 :: u64] * unat (period_ticks 100 (ts_period ?t)) < 2 ^ 64"
    unfolding P by simp
  from releases_do_not_drift [OF sample_live f t k x n b] show ?thesis unfolding P by simp
qed

text \<open>
  C25: No wake-up is lost.  An activated task that sleeps has a pending timer, and the expiry of
  that timer makes it ready and wakes the dispatcher, changing no other task.
\<close>

theorem sleeping_task_is_woken:
  assumes "mp2_reachable tab hz good s" and "slab s a = Some t"
    and "ts_state t = SLEEPING" and "ts_next_period t \<noteq> 0"
  shows "\<exists>e s'. ts_tm t = Some e \<and> mp2_trans tab hz s (Timer e a) s'
    \<and> slab s' = (slab s)(a \<mapsto> t\<lparr>ts_tm := None, ts_state := READY\<rparr>)
    \<and> HEAD s' = HEAD s \<and> curr_tsk s' = curr_tsk s \<and> klog s' = klog s @ [Wake_up_dispatch]"
proof -
  have "ts_tm t \<noteq> None"
    using reachable_inv [OF assms(1)] assms(2-4) unfolding mp2_inv_def by blast
  then obtain e where e: "ts_tm t = Some e" by blast
  let ?s = "set_node a (t\<lparr>ts_tm := None\<rparr>) s"
  let ?s' = "emit Wake_up_dispatch (set_node a (t\<lparr>ts_tm := None, ts_state := READY\<rparr>) ?s)"
  have cb: "mp2_tm_callback a ?s = Inr ?s'"
    using assms(3) reachable_inv [OF assms(1)] by (simp add: mp2_tm_callback_def deref_def mp2_inv_def)
  have "mp2_trans tab hz s (Timer e a) ?s'"
    using assms(2) e order_refl cb by (rule mp2_trans.timer)
  moreover have "slab ?s' = (slab s)(a \<mapsto> t\<lparr>ts_tm := None, ts_state := READY\<rparr>)" by simp
  ultimately show ?thesis using e by fastforce
qed

theorem sleeping_task_is_woken_witness:
  "\<exists>e s'. mp2_trans sample_tab 100 sample4 (Timer e 1) s' \<and> map_option ts_state (slab s' 1) = Some READY"
proof -
  let ?t = "(new_task sample_tab 7 500 86)\<lparr>ts_state := SLEEPING, ts_tm := Some 1050, ts_next_period := 1100\<rparr>"
  have t: "slab sample4 1 = Some ?t" by (simp add: sample4_def)
  have "ts_state ?t = SLEEPING" "ts_next_period ?t \<noteq> 0" by simp_all
  from sleeping_task_is_woken [OF sample4_reachable t this] obtain e s' where
    "mp2_trans sample_tab 100 sample4 (Timer e 1) s'"
    "slab s' = (slab sample4)(1 \<mapsto> ?t\<lparr>ts_tm := None, ts_state := READY\<rparr>)"
    by blast
  moreover from this(2) have "map_option ts_state (slab s' 1) = Some READY" by simp
  ultimately show ?thesis by blast
qed

text \<open>
  Deregistering what was just registered undoes it.  If the pid was not registered and the
  arithmetic does not wrap, registering a task and deregistering its pid restores the list, the
  store and the recorded utilisation.
\<close>

lemma register_deregister_roundtrip:
  assumes "mp2_reachable tab hz event_fits s" and "slab s a = None" and "find_by_pid s p = Inr None"
    and "admit_fits (P, C) (numerator s, denominator s)"
    and "reg_entry tab (Some a) p P C s = Inr (0, s1)"
    and "release_fits (P, C) (numerator s1, denominator s1)"
  shows "\<exists>s2. dereg_entry p s1 = Inr (0, s2) \<and> HEAD s2 = HEAD s \<and> slab s2 = slab s
    \<and> utilisation (numerator s2, denominator s2) = utilisation (numerator s, denominator s)"
proof -
  have inv: "mp2_inv s" using assms(1) by (rule reachable_inv)
  obtain nd where nd: "ac_admit (P, C) (numerator s, denominator s) = Some nd"
    and s1: "s1 = link_task a (new_task tab p P C) (s\<lparr>numerator := fst nd, denominator := snd nd\<rparr>)"
    using assms(5) by (cases rule: reg_entry_cases) auto
  have lk: "mp2_linked s" "mp2_key s a = None"
    using inv assms(2) by (simp_all add: mp2_linked_def mp2_inv_def mp2_key_def)
  have kth: "dispatch_kth s = Kth_thread" using inv by (simp add: mp2_inv_def)
  have not: "\<not> tasks.registered s p" using assms(3) tasks.lookup_none [OF lk(1)] by simp
  have "find_by_pid (link_task a (new_task tab p P C) s) p = Inr (Some a)"
    using tasks.lookup_add [OF lk, where pid_task = tab and period = P and computation = C and k = p and j = p] not
    by simp
  then have f: "find_by_pid s1 p = Inr (Some a)" by (simp add: s1 find_by_pid_def link_task_def)
  have curr: "curr_tsk s \<noteq> Some a" using inv assms(2) by (auto simp: mp2_inv_def klist_inv_def)
  have a: "a \<notin> set (HEAD s)" using inv assms(2) by (auto simp: mp2_inv_def klist_inv_def)
  have books: "frac_valid (numerator s, denominator s)"
    using reachable_books [OF assms(1)] by (simp add: books_ok_def)
  have adm: "frac_valid nd \<and> utilisation nd = utilisation (numerator s, denominator s) + task_load (P, C)"
    using adm.admit_Some [OF books assms(4) nd] by simp
  have nonneg: "0 \<le> utilisation (numerator s, denominator s)"
    unfolding utilisation_def by (intro divide_nonneg_nonneg of_nat_0_le_iff)
  have fits: "release_fits (P, C) nd" using assms(6) by (simp add: s1)
  have rel: "utilisation (ac_release (P, C) nd) = utilisation (numerator s, denominator s)"
    using ac_release_exact [OF _ fits] adm nonneg by simp
  show ?thesis
    using f a curr rel assms(2)
    by (auto simp: dereg_entry_def s1 deref_def clear_curr_def freeone_def new_task_def
        admission_control_release case_prod_beta Let_def fun_upd_idem kth)
qed

text \<open>
  C29: Unloading the module from any reachable state frees every task struct, empties the list,
  clears the current task, and stops the dispatcher thread before the slab cache is destroyed.
\<close>

theorem exit_releases_everything:
  assumes "mp2_reachable tab hz good s"
  shows "\<exists>s'. mp2_exit s = Inr s' \<and> HEAD s' = [] \<and> slab s' = Map.empty \<and> curr_tsk s' = None
    \<and> klog s' = klog s @ [Proc_remove_file, Proc_remove_dir, Kthread_stop] @ (if mycache s then [Kmem_cache_destroy] else [])"
  using reachable_inv [OF assms] by (rule mp2_exit_effect)

theorem exit_releases_everything_witness:
  "\<exists>s'. mp2_exit sample3 = Inr s' \<and> slab s' = Map.empty"
  using exit_releases_everything [OF sample_live] by blast

section \<open>Where the code departs from its intent\<close>

text \<open>
  When the dispatcher thread cannot be created, loading the module wakes the error pointer: the
  test after \<open>kthread_create\<close> is for \<open>NULL\<close>.
\<close>

lemma failed_thread_is_woken: "mp2_init True c Kth_err = Inl ErrPtrDeref"
  by (simp add: mp2_init_def init_mykernel_def init_slab_def wake_dispatch_def on_dispatch_kth_def emit_def)

text \<open>
  A yield request for a pid that is not registered dereferences a null pointer: \<open>yield_entry\<close>
  uses the result of \<open>find_by_pid\<close> without looking at it.
\<close>

lemma yield_unregistered_null_deref:
  assumes "mp2_reachable tab hz good s" and "find_by_pid s p = Inr None"
  shows "yield_entry hz' j p s = Inl NullDeref"
  using trace_curr_ok [OF reachable_inv [OF assms(1)]] assms(2) by (simp add: yield_entry_def)

text \<open>
  A registration with period 0 and computation 0, which is what a request without these
  numbers parses to, is accepted and resets the recorded utilisation to zero, whatever was
  registered before; tasks worth another 69.3 per cent are then admitted.
\<close>

lemma zero_period_resets_books:
  "ac_admit (0, 0) (n, d) = Some (0, 0)
   \<and> (unat C * 1000 < 2 ^ 32 \<longrightarrow> 693 * unat P < 2 ^ 32 \<longrightarrow> unat C * 1000 \<le> 693 * unat P \<longrightarrow>
      ac_admit (P, C) (0, 0) = Some (ucast C, ucast P))"
  using admit_first_word [of C P] by (simp add: ac_admit_def admission_control_def)

text \<open>
  Because \<open>computation * 1000\<close> and \<open>693 * period\<close> are 32-bit products, the first registration
  can be accepted with a load far above the limit: computation 4294968 with period 2 passes.
\<close>

lemma admission_wraps_around:
  "ac_admit (2, 4294968) (0, 0) = Some (4294968, 2) \<and> 2000000 < task_load (2, 4294968)"
  by (simp add: ac_admit_def admission_control_def task_load_def)

end
