(* ===== verification/MP2_Proc.thy ===== *)
theory MP2_Proc
  imports MP2_Correct KLib
begin

text \<open>
  The proc file of the scheduler module (\<open>MP2/mp2.c\<close>: \<open>findchar\<close>, \<open>mywrite\<close>, \<open>myread\<close>) and the
  process that talks to it (\<open>MP2/userapp.c\<close>: \<open>regist\<close>, \<open>yield\<close>, \<open>deregister\<close>, \<open>check\<close>;
  the whole program is in \<open>MP2_Session\<close>).

  A write hands the module the bytes of one request; a read returns the bytes the module copies
  to the reader.  Both the copies between user and kernel space and the delivery of one \<open>fprintf\<close>
  as one write are taken to succeed.  The two sides meet in the round trips: the requests that
  the user program prints are parsed to the very numbers it printed, and its check of the list it
  reads back succeeds exactly when its pid is registered.
\<close>

section \<open>Parsing a request\<close>

text \<open>The loop \<open>for (i = start; i < strlen(s); ++i)\<close>; a negative start is a huge \<open>size_t\<close>.\<close>

function findchar_from :: "char list \<Rightarrow> char \<Rightarrow> nat \<Rightarrow> int" where
  "findchar_from s c i =
     (if i < strlen s then if s ! i = c then int i else findchar_from s c (Suc i) else -1)"
  by pat_completeness auto
termination
  by (relation "measure (\<lambda>(s, c, i). strlen s - i)") auto

declare findchar_from.simps [simp del]

definition findchar :: "char list \<Rightarrow> char \<Rightarrow> int \<Rightarrow> int" where
  "findchar s c start = (if start < 0 then -1 else findchar_from s c (nat start))"

text \<open>The three numbers of the request in the buffer \<open>buff\<close>, zero where it has none.\<close>

definition parse_request :: "char list \<Rightarrow> (u32 \<times> u32 \<times> u32) kres" where
  "parse_request buff =
     (let second = findchar buff (CHR '','') 2;
          third = findchar buff (CHR '','') (second + 1)
      in bindK (if second = -1 then bindK (str_at buff 2) (\<lambda>x. Inr (kstrtoint_into x 0)) else Inr 0) (\<lambda>pid.
         if second \<noteq> -1 \<and> third \<noteq> -1 \<and> third + 2 < int (strlen buff) then
           (let b = buff[nat second := NUL, nat third := NUL]
            in bindK (str_at b 2) (\<lambda>x.
               bindK (str_at b (nat second + 1)) (\<lambda>y.
               bindK (str_at b (nat third + 1)) (\<lambda>z.
                 Inr (kstrtoint_into x pid, kstrtoint_into y 0, kstrtoint_into z 0)))))
         else Inr (pid, 0, 0)))"

section \<open>The write callback\<close>

definition mp2_mywrite ::
  "(u32 \<Rightarrow> ktask option) \<Rightarrow> u32 \<Rightarrow> u64 \<Rightarrow> addr option \<Rightarrow> string \<Rightarrow> mp2 \<Rightarrow> (nat \<times> mp2) kres" where
  "mp2_mywrite pid_task USER_HZ jiffies cache_alloc userbuff s =
     (let len = length userbuff; buff = userbuff @ [NUL]
      in bindK (parse_request buff) (\<lambda>(pid, period, computation).
         bindK
           (if buff ! 0 = CHR ''R'' then
              bindK (reg_entry pid_task cache_alloc pid period computation s) (\<lambda>(r, s1). Inr s1)
            else if buff ! 0 = CHR ''Y'' then yield_entry USER_HZ jiffies pid s
            else if buff ! 0 = CHR ''D'' then bindK (dereg_entry pid s) (\<lambda>(r, s1). Inr s1)
            else Inr s)
           (\<lambda>s'. Inr (len, s'))))"

section \<open>The read callback\<close>

definition buffsize :: nat where
  "buffsize = 2048"

text \<open>
  The loop that prints one pid per line into \<open>tmpbuf\<close>; the second argument is what is there so
  far, and the terminating NUL of each \<open>sprintf\<close> must still fit.
\<close>

fun print_pids :: "(addr \<rightharpoonup> mp2_task_struct) \<Rightarrow> string \<Rightarrow> addr list \<Rightarrow> string kres" where
  "print_pids h tmpbuf [] = Inr tmpbuf"
| "print_pids h tmpbuf (itr # rest) =
     bindK (deref h itr) (\<lambda>t.
       let tmpbuf' = tmpbuf @ fmt_d (ts_pid t) @ [newline]
       in if buffsize < length tmpbuf' + 1 then Inl OutOfBounds else print_pids h tmpbuf' rest)"

text \<open>The result is the return value, the bytes copied to the reader and the new file offset.\<close>

definition mp2_myread :: "bool \<Rightarrow> bool \<Rightarrow> nat \<Rightarrow> mp2 \<Rightarrow> (nat \<times> string \<times> nat) kres" where
  "mp2_myread tmpbuf_alloc buf_alloc offset s =
     (if 0 < offset then Inr (0, [], offset)
      else if \<not> tmpbuf_alloc \<or> \<not> buf_alloc then Inl NullDeref
      else bindK (print_pids (slab s) [] (HEAD s)) (\<lambda>tmpbuf.
        let buf = fmt_d (of_nat (length (HEAD s))) @ [newline];
            total_len = length buf + length tmpbuf
        in if buffsize < total_len + 1 then Inl OutOfBounds
           else Inr (total_len + 1, buf @ tmpbuf @ [NUL], offset + total_len + 1)))"

section \<open>The user program\<close>

definition regist_msg :: "u32 \<Rightarrow> u32 \<Rightarrow> u32 \<Rightarrow> string" where
  "regist_msg curr_pid period computation =
     ''R,'' @ fmt_d curr_pid @ '','' @ fmt_d period @ '','' @ fmt_d computation @ [newline]"

definition yield_msg :: "u32 \<Rightarrow> string" where
  "yield_msg curr_pid = ''Y,'' @ fmt_d curr_pid @ [newline]"

definition deregister_msg :: "u32 \<Rightarrow> string" where
  "deregister_msg curr_pid = ''D,'' @ fmt_d curr_pid @ [newline]"

text \<open>
  \<open>fgets(line, 256, fp)\<close>: at most 255 bytes, up to and including the first newline; nothing at the
  end of the file.  \<open>sscanf(line, "%d", &v)\<close>: an optional sign and digits; no match leaves the
  variable alone.  (The lines it is applied to have no leading white space.)
\<close>

definition fgets :: "nat \<Rightarrow> string \<Rightarrow> (string \<times> string) option" where
  "fgets n file =
     (if file = [] then None
      else let chunk = take (n - 1) file;
               k = length (takeWhile (\<lambda>c. c \<noteq> newline) chunk);
               m = (if k < length chunk then k + 1 else k)
           in Some (take m file, drop m file))"

lemma fgets_split: "fgets n file = Some (line, rest) \<Longrightarrow> file = line @ rest"
  by (auto simp: fgets_def Let_def split: if_splits)

lemma fgets_shorter:
  assumes "fgets n file = Some (line, rest)" and "1 < n"
  shows "length rest < length file"
proof -
  have "file \<noteq> []" using assms(1) by (auto simp: fgets_def)
  then have "take (n - 1) file \<noteq> []" using assms(2) by simp
  then have "line \<noteq> []"
    using assms(1) \<open>file \<noteq> []\<close> by (auto simp: fgets_def Let_def split: if_splits)
  then show ?thesis using fgets_split [OF assms(1)] by simp
qed

definition sscanf_d :: "string \<Rightarrow> int \<Rightarrow> int" where
  "sscanf_d line old =
     (let s = cstring line;
          neg = (s \<noteq> [] \<and> hd s = CHR ''-'');
          ds = takeWhile is_digit (if neg then tl s else s)
      in if ds = [] then old else (if neg then - int (digits_val ds) else int (digits_val ds)))"

text \<open>The loop of \<open>check\<close> over the lines that follow the first; 0 means the pid was found.\<close>

function check_lines :: "int \<Rightarrow> int \<Rightarrow> string \<Rightarrow> nat" where
  "check_lines curr_pid pid file =
     (case fgets 256 file of
        None \<Rightarrow> 1
      | Some (line, rest) \<Rightarrow>
          let pid' = sscanf_d line pid
          in if pid' = curr_pid then 0 else check_lines curr_pid pid' rest)"
  by pat_completeness auto
termination
  by (relation "measure (\<lambda>(c, p, file). length file)")
    (auto simp: fgets_shorter)

declare check_lines.simps [simp del]

definition check_app :: "u32 \<Rightarrow> string \<Rightarrow> nat" where
  "check_app curr_pid file =
     (case fgets 256 file of None \<Rightarrow> check_lines (sint curr_pid) 0 []
      | Some (line, rest) \<Rightarrow> check_lines (sint curr_pid) 0 rest)"

section \<open>Facts about the parser\<close>

lemma findchar_from_hit:
  assumes "NUL \<notin> set (p @ x @ c # r)" and "c \<notin> set x"
  shows "findchar_from (p @ x @ c # r @ [NUL]) c (length p) = int (length p + length x)"
  using assms
proof (induction x arbitrary: p)
  case Nil
  have "strlen (p @ c # r @ [NUL]) = length (p @ c # r)"
    using strlen_append_NUL [of "p @ c # r" "[]"] Nil.prems by simp
  then show ?case by (simp add: findchar_from.simps)
next
  case (Cons y x)
  have len: "strlen (p @ (y # x) @ c # r @ [NUL]) = length (p @ (y # x) @ c # r)"
    using strlen_append_NUL [of "p @ (y # x) @ c # r" "[]"] Cons.prems by simp
  have "findchar_from ((p @ [y]) @ x @ c # r @ [NUL]) c (length (p @ [y])) = int (length (p @ [y]) + length x)"
    using Cons.prems by (intro Cons.IH) auto
  with Cons.prems len show ?case
    by (subst findchar_from.simps) (auto simp: nth_append)
qed

lemma findchar_from_miss:
  assumes "NUL \<notin> set (p @ x)" and "c \<notin> set x"
  shows "findchar_from (p @ x @ [NUL]) c (length p) = -1"
  using assms
proof (induction x arbitrary: p)
  case Nil
  then show ?case
    using strlen_append_NUL [of p "[]"] by (simp add: findchar_from.simps)
next
  case (Cons y x)
  have len: "strlen (p @ (y # x) @ [NUL]) = length (p @ y # x)"
    using strlen_append_NUL [of "p @ y # x" "[]"] Cons.prems by simp
  have "findchar_from ((p @ [y]) @ x @ [NUL]) c (length (p @ [y])) = -1"
    using Cons.prems by (intro Cons.IH) auto
  with Cons.prems len show ?case
    by (subst findchar_from.simps) (auto simp: nth_append)
qed

lemma findchar_hit:
  assumes "NUL \<notin> set (p @ x @ c # r)" and "c \<notin> set x" and "i = int (length p)"
  shows "findchar (p @ x @ c # r @ [NUL]) c i = i + int (length x)"
  using findchar_from_hit [OF assms(1,2)] assms(3) by (simp add: findchar_def)

lemma findchar_miss:
  assumes "NUL \<notin> set (p @ x)" and "c \<notin> set x" and "i = int (length p)"
  shows "findchar (p @ x @ [NUL]) c i = -1"
  using findchar_from_miss [OF assms(1,2)] assms(3) by (simp add: findchar_def)

lemma kstrtoint_into_fmt [simp]:
  "kstrtoint_into (fmt_d w) old = w" "kstrtoint_into (fmt_d w @ [newline]) old = w"
  using kstrtoint_dec_int [of "[]" w] kstrtoint_dec_int [of "[newline]" w]
  by (simp_all add: kstrtoint_into_def)

lemma newline_NUL [simp]: "newline \<noteq> NUL" "NUL \<noteq> newline" "CHR '','' \<noteq> NUL" "NUL \<noteq> CHR '',''"
  "newline \<noteq> CHR '',''" "CHR '','' \<noteq> newline" "CHR ''R'' \<noteq> NUL" "NUL \<noteq> CHR ''R''"
  "CHR ''Y'' \<noteq> NUL" "NUL \<noteq> CHR ''Y''" "CHR ''D'' \<noteq> NUL" "NUL \<noteq> CHR ''D''"
  by (simp_all add: newline_def NUL_def)

text \<open>A request with one number and no further comma.\<close>

lemma parse_one:
  assumes "c \<noteq> NUL"
  shows "parse_request ((c # CHR '','' # fmt_d pid @ [newline]) @ [NUL]) = Inr (pid, 0, 0)"
proof -
  let ?p = "[c, CHR '','']" and ?x = "fmt_d pid @ [newline]"
  have "findchar (?p @ ?x @ [NUL]) (CHR '','') 2 = -1"
    using assms by (intro findchar_miss) simp_all
  moreover have "str_at (?p @ ?x @ NUL # []) (length ?p) = Inr ?x"
    by (rule str_at_mid) simp
  ultimately show ?thesis by (simp add: parse_request_def numeral_2_eq_2)
qed

text \<open>Where the parser finds the two commas of a request with three fields.\<close>

lemma parse_commas:
  assumes "c \<noteq> NUL" and "NUL \<notin> set x" "CHR '','' \<notin> set x" and "NUL \<notin> set y" "CHR '','' \<notin> set y"
    and "NUL \<notin> set z"
  defines "buff \<equiv> [c, CHR '',''] @ x @ CHR '','' # y @ CHR '','' # z @ [NUL]"
  shows "findchar buff (CHR '','') 2 = 2 + int (length x)"
    and "findchar buff (CHR '','') (2 + int (length x) + 1) = 3 + int (length x) + int (length y)"
    and "strlen buff = length x + length y + length z + 4"
proof -
  let ?p = "[c, CHR '','']" and ?cm = "CHR '',''"
  show "findchar buff ?cm 2 = 2 + int (length x)"
    using findchar_hit [of ?p x ?cm "y @ ?cm # z" 2] assms by simp
  show "findchar buff ?cm (2 + int (length x) + 1) = 3 + int (length x) + int (length y)"
    using findchar_hit [of "?p @ x @ [?cm]" y ?cm z "2 + int (length x) + 1"] assms by simp
  show "strlen buff = length x + length y + length z + 4"
    using strlen_append_NUL [of "?p @ x @ ?cm # y @ ?cm # z" "[]"] assms by simp
qed

lemma parse_three_cut:
  assumes "c \<noteq> NUL" and "NUL \<notin> set x" "CHR '','' \<notin> set x" and "NUL \<notin> set y" "CHR '','' \<notin> set y"
    and "NUL \<notin> set z" and "length z \<le> 1"
  shows "parse_request (([c, CHR '',''] @ x @ CHR '','' # y @ CHR '','' # z) @ [NUL]) = Inr (0, 0, 0)"
proof -
  note commas = parse_commas [OF assms(1-6)]
  have buff: "([c, CHR '',''] @ x @ CHR '','' # y @ CHR '','' # z) @ [NUL] =
      [c, CHR '',''] @ x @ CHR '','' # y @ CHR '','' # z @ [NUL]" by simp
  show ?thesis
    unfolding parse_request_def buff Let_def commas using assms(7) by simp
qed

lemma parse_three:
  assumes c: "c \<noteq> NUL" and x: "NUL \<notin> set x" "CHR '','' \<notin> set x" and y: "NUL \<notin> set y" "CHR '','' \<notin> set y"
    and z: "NUL \<notin> set z" "1 < length z"
  shows "parse_request (([c, CHR '',''] @ x @ CHR '','' # y @ CHR '','' # z) @ [NUL]) =
    Inr (kstrtoint_into x 0, kstrtoint_into y 0, kstrtoint_into z 0)"
proof -
  let ?p = "[c, CHR '','']" and ?cm = "CHR '',''"
  let ?buff = "?p @ x @ ?cm # y @ ?cm # z @ [NUL]"
  note commas = parse_commas [OF c x y z(1)]
  let ?b = "?buff[2 + length x := NUL, 3 + length x + length y := NUL]"
  have b: "?b = ?p @ x @ NUL # y @ NUL # z @ [NUL]"
    using list_update_length [of "?p @ x" ?cm "y @ ?cm # z @ [NUL]" NUL]
      list_update_length [of "?p @ x @ NUL # y" ?cm "z @ [NUL]" NUL] by (simp add: numeral_3_eq_3)
  have s1: "str_at ?b 2 = Inr x"
    unfolding b using str_at_mid [of x ?p "y @ NUL # z @ [NUL]"] x by (simp add: numeral_2_eq_2)
  have s2: "str_at ?b (2 + length x + 1) = Inr y"
    unfolding b using str_at_mid [of y "?p @ x @ [NUL]" "z @ [NUL]"] y by simp
  have s3: "str_at ?b (3 + length x + length y + 1) = Inr z"
    unfolding b using str_at_mid [of z "?p @ x @ NUL # y @ [NUL]" "[]"] z by (simp add: numeral_3_eq_3)
  have nats: "nat (2 + int (length x)) = 2 + length x"
    "nat (3 + int (length x) + int (length y)) = 3 + length x + length y" by simp_all
  have found: "(2 + int (length x) = -1) = False" "(3 + int (length x) + int (length y) = -1) = False"
    "(3 + int (length x) + int (length y) + 2 < int (strlen ?buff)) = True"
    using z(2) commas(3) by simp_all
  have buff: "([c, ?cm] @ x @ ?cm # y @ ?cm # z) @ [NUL] = ?buff" by simp
  show ?thesis
    unfolding parse_request_def buff Let_def commas(1,2)
    by (simp only: found nats s1 s2 s3 bindK_Inr simp_thms if_True if_False)
qed

lemma parse_regist: "parse_request (regist_msg pid P C @ [NUL]) = Inr (pid, P, C)"
proof -
  have "1 < length (fmt_d C @ [newline])"
    by (cases "fmt_d C") (use fmt_d_nonempty [of C] in simp_all)
  then show ?thesis
    using parse_three [of "CHR ''R''" "fmt_d pid" "fmt_d P" "fmt_d C @ [newline]"]
    by (simp add: regist_msg_def)
qed

lemma parse_yield: "parse_request (yield_msg pid @ [NUL]) = Inr (pid, 0, 0)"
  using parse_one [of "CHR ''Y''" pid] by (simp add: yield_msg_def)

lemma parse_deregister: "parse_request (deregister_msg pid @ [NUL]) = Inr (pid, 0, 0)"
  using parse_one [of "CHR ''D''" pid] by (simp add: deregister_msg_def)

section \<open>Facts about reading\<close>

definition pid_line :: "u32 \<Rightarrow> string" where
  "pid_line p = fmt_d p @ [newline]"

definition pids :: "mp2 \<Rightarrow> u32 list" where
  "pids s = map (\<lambda>a. ts_pid (the (slab s a))) (HEAD s)"

lemma length_pid_line: "length (pid_line p) \<le> 12"
  using length_fmt_d [of p] by (simp add: pid_line_def)

lemma print_pids_fits:
  assumes "set xs \<subseteq> dom h" and "length buf + 12 * length xs < buffsize"
  shows "print_pids h buf xs = Inr (buf @ concat (map (\<lambda>a. pid_line (ts_pid (the (h a)))) xs))"
  using assms
proof (induction xs arbitrary: buf)
  case Nil
  then show ?case by simp
next
  case (Cons a xs)
  then obtain t where t: "h a = Some t" by auto
  have line: "length (pid_line (ts_pid t)) \<le> 12" by (rule length_pid_line)
  have "print_pids h (buf @ pid_line (ts_pid t)) xs =
      Inr ((buf @ pid_line (ts_pid t)) @ concat (map (\<lambda>a. pid_line (ts_pid (the (h a)))) xs))"
    using Cons.prems line by (intro Cons.IH) simp_all
  with Cons.prems t line show ?case by (simp add: deref_def pid_line_def Let_def)
qed

lemma length_concat_lines: "length (concat (map (\<lambda>a. pid_line (f a)) xs)) \<le> 12 * length xs"
proof (induction xs)
  case (Cons a xs)
  then show ?case using length_pid_line [of "f a"] by simp
qed simp

lemma mp2_myread_effect:
  assumes "mp2_inv s" and "length (HEAD s) \<le> 169"
  shows "\<exists>n. mp2_myread True True 0 s =
    Inr (n, pid_line (of_nat (length (HEAD s))) @ concat (map pid_line (pids s)) @ [NUL], n)
    \<and> n = Suc (length (pid_line (of_nat (length (HEAD s))) @ concat (map pid_line (pids s)))) \<and> n \<le> buffsize"
proof -
  have "print_pids (slab s) [] (HEAD s) = Inr ([] @ concat (map (\<lambda>a. pid_line (ts_pid (the (slab s a)))) (HEAD s)))"
    using klist_dom [OF assms(1)] assms(2) by (intro print_pids_fits) (simp_all add: buffsize_def)
  moreover have "length (concat (map (\<lambda>a. pid_line (ts_pid (the (slab s a)))) (HEAD s))) \<le> 12 * length (HEAD s)"
    by (rule length_concat_lines)
  ultimately show ?thesis
    using assms(2) length_pid_line [of "of_nat (length (HEAD s))"]
    by (simp add: mp2_myread_def pid_line_def pids_def Let_def buffsize_def comp_def)
qed

lemma fgets_line:
  assumes "newline \<notin> set l" and "length l < 255"
  shows "fgets 256 (l @ newline # r) = Some (l @ [newline], r)"
proof -
  have "take 255 (l @ newline # r) = l @ newline # take (254 - length l) r"
    using assms(2) by (simp add: take_Cons')
  moreover have "takeWhile (\<lambda>c. c \<noteq> newline) (l @ newline # t) = l" for t
    using assms(1) by (subst takeWhile_append2) auto
  ultimately show ?thesis by (simp add: fgets_def)
qed

lemma fgets_pid_line: "fgets 256 (pid_line p @ r) = Some (pid_line p, r)"
  using fgets_line [of "fmt_d p" r] length_fmt_d [of p] by (simp add: pid_line_def)

lemma sscanf_pid_line: "sscanf_d (pid_line p) old = sint p"
proof -
  have c: "cstring (pid_line p) = fmt_d p @ [newline]"
    by (simp add: pid_line_def cstring_id)
  have d: "takeWhile is_digit (dec_nat n @ [newline]) = dec_nat n" for n
    by (rule takeWhile_dec_nat) simp
  show ?thesis
  proof (cases "sint p < 0")
    case True
    then show ?thesis by (simp add: sscanf_d_def c fmt_d_def dec_int_def d)
  next
    case False
    obtain x xs where x: "dec_nat (nat (sint p)) @ [newline] = x # xs" "is_digit x"
      using dec_nat_hd by blast
    then have "hd (dec_nat (nat (sint p)) @ [newline]) \<noteq> CHR ''-''" by auto
    with False show ?thesis by (simp add: sscanf_d_def c fmt_d_def dec_int_def d)
  qed
qed

lemma check_lines_pids:
  assumes "old \<noteq> c"
  shows "check_lines c old (concat (map pid_line ps) @ [NUL]) = (if c \<in> sint ` set ps then 0 else 1)"
  using assms
proof (induction ps arbitrary: old)
  case Nil
  have "fgets 256 [NUL] = Some ([NUL], [])" by (simp add: fgets_def)
  moreover have "sscanf_d [NUL] old = old" by (simp add: sscanf_d_def cstring_def)
  moreover have "check_lines c old [] = 1" by (simp add: check_lines.simps fgets_def)
  ultimately show ?case using Nil by (subst check_lines.simps) simp
next
  case (Cons p ps)
  have "fgets 256 (concat (map pid_line (p # ps)) @ [NUL]) = Some (pid_line p, concat (map pid_line ps) @ [NUL])"
    using fgets_pid_line by simp
  then show ?case using Cons by (subst check_lines.simps) (auto simp: sscanf_pid_line Let_def)
qed

section \<open>Requests and replies\<close>

lemma mywrite_regist:
  "mp2_mywrite tab hz j al (regist_msg p P C) s =
     bindK (reg_entry tab al p P C s) (\<lambda>(r, s'). Inr (length (regist_msg p P C), s'))"
proof -
  have "(regist_msg p P C @ [NUL]) ! 0 = CHR ''R''" by (simp add: regist_msg_def)
  then show ?thesis
    unfolding mp2_mywrite_def Let_def parse_regist by (simp add: bindK_assoc case_prod_unfold)
qed

lemma mywrite_yield:
  "mp2_mywrite tab hz j al (yield_msg p) s =
     bindK (yield_entry hz j p s) (\<lambda>s'. Inr (length (yield_msg p), s'))"
proof -
  have "(yield_msg p @ [NUL]) ! 0 = CHR ''Y''" by (simp add: yield_msg_def)
  then show ?thesis unfolding mp2_mywrite_def Let_def parse_yield by (simp add: bindK_assoc)
qed

lemma mywrite_deregister:
  "mp2_mywrite tab hz j al (deregister_msg p) s =
     bindK (dereg_entry p s) (\<lambda>(r, s'). Inr (length (deregister_msg p), s'))"
proof -
  have "(deregister_msg p @ [NUL]) ! 0 = CHR ''D''" by (simp add: deregister_msg_def)
  then show ?thesis
    unfolding mp2_mywrite_def Let_def parse_deregister by (simp add: bindK_assoc case_prod_unfold)
qed

lemma myread_check:
  assumes "mp2_inv s" and "length (HEAD s) \<le> 169" and "p \<noteq> 0"
  shows "\<exists>n bytes. mp2_myread True True 0 s = Inr (n, bytes, n) \<and> n = length bytes \<and> n \<le> buffsize
    \<and> check_app p bytes = (if p \<in> set (pids s) then 0 else 1)"
proof -
  let ?head = "pid_line (of_nat (length (HEAD s)))" and ?body = "concat (map pid_line (pids s))"
  obtain n where n: "mp2_myread True True 0 s = Inr (n, ?head @ ?body @ [NUL], n)"
    "n = Suc (length (?head @ ?body))" "n \<le> buffsize"
    using mp2_myread_effect [OF assms(1,2)] by blast
  have "sint p \<noteq> 0" using assms(3) by (metis signed_0 signed_word_eqI)
  then have "check_app p (?head @ ?body @ [NUL]) = (if sint p \<in> sint ` set (pids s) then 0 else 1)"
    using check_lines_pids [of 0 "sint p" "pids s"] by (simp add: check_app_def fgets_pid_line)
  moreover have "sint p \<in> sint ` set (pids s) \<longleftrightarrow> p \<in> set (pids s)"
    by (auto dest: signed_word_eqI)
  ultimately show ?thesis using n by simp
qed

section \<open>Properties\<close>

text \<open>
  C14: The requests of the user program reach the right handler with the numbers it printed.  For
  every pid, period and computation time, also those whose \<open>%d\<close> rendering is negative, the write
  callback parses the three requests back to exactly these values, runs the handler on them and
  returns the length of the request.
\<close>

theorem requests_roundtrip:
  "mp2_mywrite tab hz j al (regist_msg p P C) s =
     bindK (reg_entry tab al p P C s) (\<lambda>(r, s'). Inr (length (regist_msg p P C), s'))
   \<and> mp2_mywrite tab hz j al (yield_msg p) s =
     bindK (yield_entry hz j p s) (\<lambda>s'. Inr (length (yield_msg p), s'))
   \<and> mp2_mywrite tab hz j al (deregister_msg p) s =
     bindK (dereg_entry p s) (\<lambda>(r, s'). Inr (length (deregister_msg p), s'))"
  by (intro conjI mywrite_regist mywrite_yield mywrite_deregister)

text \<open>
  C20: Reading the proc file.  In a reachable state with at most 169 registered tasks the read
  callback stays within its 2048-byte buffers, and the check that the user program runs on the
  bytes it gets succeeds (returns 0) exactly when its pid is registered.
\<close>

theorem read_then_check:
  assumes "mp2_reachable tab hz good s" and "length (HEAD s) \<le> 169" and "p \<noteq> 0"
  shows "\<exists>n bytes. mp2_myread True True 0 s = Inr (n, bytes, n) \<and> n = length bytes \<and> n \<le> 2048
    \<and> check_app p bytes = (if p \<in> set (pids s) then 0 else 1)"
  using myread_check [OF reachable_inv [OF assms(1)] assms(2,3)] by (simp add: buffsize_def)

theorem read_then_check_witness:
  "\<exists>n bytes. mp2_myread True True 0 sample3 = Inr (n, bytes, n) \<and> check_app 8 bytes = 0"
proof -
  have h: "length (HEAD sample3) \<le> 169" "(8 :: u32) \<noteq> 0" "8 \<in> set (pids sample3)"
    by (simp_all add: sample_defs pids_def)
  from read_then_check [OF sample_live h(1,2)] h(3) show ?thesis by auto
qed

text \<open>
  A request shorter than two bytes makes the parser read beyond its stack buffer: the guard at
  the top of \<open>mywrite\<close> only prints a warning and the function goes on.
\<close>

lemma short_request_reads_out_of_bounds:
  assumes "length userbuff < 2"
  shows "mp2_mywrite tab hz j al userbuff s = Inl OutOfBounds"
proof -
  have "strlen (userbuff @ [NUL]) \<le> length userbuff" by (rule strlen_snoc_NUL)
  then have "findchar (userbuff @ [NUL]) (CHR '','') 2 = -1"
    using assms by (simp add: findchar_def findchar_from.simps)
  moreover have "str_at (userbuff @ [NUL]) 2 = Inl OutOfBounds"
    using assms by (simp add: str_at_def)
  ultimately show ?thesis by (simp add: mp2_mywrite_def parse_request_def Let_def)
qed

text \<open>
  A registration request that ends right after a one-digit computation time (no final newline)
  is parsed as pid 0, period 0 and computation 0, because the guard asks for two bytes after the
  last comma.
\<close>

lemma one_digit_request_parsed_as_zero:
  assumes "is_digit z"
  shows "parse_request ((''R,'' @ fmt_d pid @ '','' @ fmt_d P @ '','' @ [z]) @ [NUL]) = Inr (0, 0, 0)"
proof -
  have "z \<noteq> NUL" using assms by auto
  then show ?thesis
    using parse_three_cut [of "CHR ''R''" "fmt_d pid" "fmt_d P" "[z]"] by simp
qed

text \<open>
  C40: Requests that crash the kernel.  In every reachable state a yield request for a pid that is
  not registered dereferences a null pointer, because \<open>yield_entry\<close> uses the result of \<open>find_by_pid\<close>
  without looking at it; and a request shorter than two bytes makes the parser read beyond its
  stack buffer, because the guard at the top of \<open>mywrite\<close> only prints a warning.
\<close>

theorem bad_requests_fault:
  assumes "mp2_reachable tab hz good s"
  shows "(find_by_pid s p = Inr None \<longrightarrow> mp2_mywrite tab' hz' j al (yield_msg p) s = Inl NullDeref)
    \<and> (length userbuff < 2 \<longrightarrow> mp2_mywrite tab' hz' j al userbuff s = Inl OutOfBounds)"
  using yield_unregistered_null_deref [OF assms] short_request_reads_out_of_bounds
  by (simp add: mywrite_yield)

theorem bad_requests_fault_witness:
  "mp2_mywrite sample_tab 100 1000 None (yield_msg 9) sample3 = Inl NullDeref
   \<and> mp2_mywrite sample_tab 100 1000 None ''Y'' sample3 = Inl OutOfBounds"
proof -
  have f: "find_by_pid sample3 9 = Inr None" by (simp add: find_by_pid_def deref_def sample_defs)
  have l: "length ''Y'' < 2" by simp
  from bad_requests_fault [OF sample_live, of 9 sample_tab 100 1000 None "''Y''"] f l show ?thesis by blast
qed

end
