(* ===== verification/MP2_Session.thy ===== *)
theory MP2_Session
  imports MP2_Proc KTrans
begin

text \<open>
  One whole run of the user program (\<open>MP2/userapp.c\<close>: \<open>factorial\<close>, \<open>helper\<close>, \<open>loop\<close>, \<open>main\<close>) against
  the scheduler module, with everything that other processes, the timers and the dispatcher do to
  the module in between.

  A process that the module has put into \<open>TASK_UNINTERRUPTIBLE\<close> does not come back from the
  \<open>schedule()\<close> of its yield before the dispatcher has woken its task.  This is read off the record of
  kernel calls by \<open>blocked\<close>, and a run that reaches a call of the program while its task is blocked
  stops there: its result is \<open>Asleep\<close> with the state of the module, and \<open>Done\<close> with the results
  otherwise.

  The clock ticks at the calls, the pid and the task the kernel has given the process, the CPU clock
  and the node the slab allocator returns are parameters; so is the environment, a function that
  gives the state the module is in when the program is to make its next call.  It may be any
  sequence of transitions of the module in which no request names the pid of the program and the
  program itself is not killed.  The \<open>double\<close> arithmetic on the measured CPU time is exact here, and
  the messages the program prints are left out.
\<close>

section \<open>The computation\<close>

definition FACTORIAL_N :: int where
  "FACTORIAL_N = 20000000"

text \<open>
  The body multiplies by \<open>i++\<close>, so the counter advances by two in each round; the last argument
  counts the rounds.
\<close>

function factorial_loop :: "int \<Rightarrow> int \<Rightarrow> nat \<Rightarrow> int \<times> nat" where
  "factorial_loop out i rounds =
     (if i < FACTORIAL_N then factorial_loop (out * i) (i + 1 + 1) (rounds + 1) else (out, rounds))"
  by pat_completeness auto
termination
  by (relation "measure (\<lambda>(out, i, _). nat (FACTORIAL_N - i))") auto

declare factorial_loop.simps [simp del]

definition factorial_app :: "int \<times> nat" where
  "factorial_app = factorial_loop 0 0 0"

text \<open>\<open>for (; i < computation_times; ++i) factorial();\<close> with the rounds computed so far.\<close>

function job_loop :: "int \<Rightarrow> int \<Rightarrow> nat \<Rightarrow> nat" where
  "job_loop computation_times i rounds =
     (if i < computation_times then job_loop computation_times (i + 1) (rounds + snd factorial_app) else rounds)"
  by pat_completeness auto
termination
  by (relation "measure (\<lambda>(n, i, _). nat (n - i))") auto

declare job_loop.simps [simp del]

text \<open>\<open>helper\<close>: the CPU time of one call in seconds; \<open>CLOCKS_PER_SEC\<close> is a million.\<close>

definition helper_cost :: "int \<Rightarrow> int \<Rightarrow> real" where
  "helper_cost clk1 clk2 = real_of_int (clk2 - clk1) / 1000000"

text \<open>\<open>computation = comp * computation_times * 1000\<close>, truncated to an \<open>unsigned int\<close>.\<close>

definition computation_ms :: "int \<Rightarrow> int \<Rightarrow> int \<Rightarrow> u32" where
  "computation_ms clk1 clk2 computation_times =
     (let x = helper_cost clk1 clk2 * real_of_int computation_times * 1000
      in word_of_int (if 0 \<le> x then \<lfloor>x\<rfloor> else \<lceil>x\<rceil>))"

text \<open>\<open>atoi\<close>: white space, an optional sign, digits; 0 when there are none.\<close>

definition is_space :: "char \<Rightarrow> bool" where
  "is_space c = ((of_char c :: nat) \<in> {9, 10, 11, 12, 13, 32})"

definition atoi :: "string \<Rightarrow> int" where
  "atoi str =
     (let s = dropWhile is_space (cstring str);
          neg = (s \<noteq> [] \<and> hd s = CHR ''-'');
          plus = (s \<noteq> [] \<and> hd s = CHR ''+'');
          v = int (digits_val (takeWhile is_digit (if neg \<or> plus then tl s else s)))
      in if neg then - v else v)"

text \<open>Numbers on the command line are read back.\<close>

lemma atoi_dec_nat: "atoi (dec_nat n) = int n"
proof -
  obtain c cs where c: "dec_nat n = c # cs" "is_digit c" using dec_nat_hd [of n "[]"] by auto
  then have "\<not> is_space c" "c \<noteq> CHR ''-''" "c \<noteq> CHR ''+''" by (auto simp: is_digit_def is_space_def)
  moreover have "cstring (dec_nat n) = dec_nat n" by (intro cstring_id notin_dec_nat) simp
  moreover have "takeWhile is_digit (dec_nat n) = dec_nat n" using takeWhile_dec_nat [of "[]" n] by simp
  moreover have "digits_val (dec_nat n) = n" by simp
  ultimately show ?thesis by (simp add: atoi_def c(1))
qed

lemma atoi_minus: "atoi (''-'' @ dec_nat n) = - int n"
proof -
  have d: "cstring (CHR ''-'' # dec_nat n) = CHR ''-'' # dec_nat n"
    using notin_dec_nat [of NUL n] by (intro cstring_id) (simp add: NUL_def is_digit_def)
  have "takeWhile is_digit (dec_nat n) = dec_nat n" using takeWhile_dec_nat [of "[]" n] by simp
  then have v: "digits_val (takeWhile is_digit (dec_nat n)) = n" by (simp only: digits_val_dec_nat)
  show ?thesis by (simp add: atoi_def d is_space_def v)
qed

section \<open>Processes that sleep in the kernel\<close>

text \<open>
  \<open>set_task_state(k, TASK_UNINTERRUPTIBLE)\<close> takes the task off the processor at the next \<open>schedule()\<close>,
  and only \<open>wake_up_process(k)\<close> puts it back.
\<close>

fun sleep_step :: "ktask \<Rightarrow> bool \<Rightarrow> kcall \<Rightarrow> bool" where
  "sleep_step k b (Set_task_uninterruptible l) = (l = k \<or> b)"
| "sleep_step k b (Wake_up_process l) = (l \<noteq> k \<and> b)"
| "sleep_step k b _ = b"

definition blocked :: "ktask \<Rightarrow> kcall list \<Rightarrow> bool" where
  "blocked k calls = foldl (sleep_step k) False calls"

datatype 'a progress = Asleep mp2 | Done 'a

definition bindP :: "'a progress kres \<Rightarrow> ('a \<Rightarrow> 'b progress kres) \<Rightarrow> 'b progress kres" where
  "bindP r f = bindK r (\<lambda>x. case x of Asleep y \<Rightarrow> Inr (Asleep y) | Done v \<Rightarrow> f v)"

text \<open>The process goes on in the state \<open>s\<close> if its task is not asleep there.\<close>

definition resumes :: "ktask \<Rightarrow> mp2 \<Rightarrow> mp2 progress kres" where
  "resumes k s = Inr (if blocked k (klog s) then Asleep s else Done s)"

section \<open>The program against the module\<close>

text \<open>
  One request: the environment acts, then, once the process is running, the bytes are written at
  the tick of the call.
\<close>

definition send ::
  "(u32 \<Rightarrow> ktask option) \<Rightarrow> u32 \<Rightarrow> ktask \<Rightarrow> (nat \<Rightarrow> mp2 \<Rightarrow> mp2) \<Rightarrow> (nat \<Rightarrow> u64) \<Rightarrow> nat \<Rightarrow> string \<Rightarrow>
   mp2 \<Rightarrow> mp2 progress kres" where
  "send pid_task USER_HZ self env clock i msg s =
     bindP (resumes self (env i s)) (\<lambda>x.
     bindK (mp2_mywrite (pid_now pid_task x) USER_HZ (clock i) None msg x) (\<lambda>(n, s'). Inr (Done s')))"

text \<open>
  The \<open>while\<close> loop of \<open>loop\<close>: the result is the number of jobs done, the rounds they computed and the
  state of the module.
\<close>

function loop_run ::
  "(nat \<Rightarrow> mp2 \<Rightarrow> mp2 progress kres) \<Rightarrow> int \<Rightarrow> int \<Rightarrow> int \<Rightarrow> nat \<Rightarrow> nat \<Rightarrow> mp2 \<Rightarrow> (nat \<times> nat \<times> mp2) progress kres" where
  "loop_run yld set_times computation_times time jobs rounds s =
     (if time < set_times then
        let rounds' = job_loop computation_times 0 rounds in
        if set_times \<le> time + 1 then Inr (Done (jobs + 1, rounds', s))
        else bindP (yld (jobs + 1) s)
          (\<lambda>s'. loop_run yld set_times computation_times (time + 1) (jobs + 1) rounds' s')
      else Inr (Done (jobs, rounds, s)))"
  by pat_completeness auto
termination
  by (relation "measure (\<lambda>(_, n, _, t, _). nat (n - t))") auto

declare loop_run.simps [simp del]

text \<open>
  \<open>main\<close>: the exit code, the number of jobs done, the rounds computed and the state of the module at
  the end.  The argument \<open>opened\<close> says whether \<open>fopen\<close> finds the proc file; its result is not checked.
\<close>

definition userapp_main ::
  "bool \<Rightarrow> (u32 \<Rightarrow> ktask option) \<Rightarrow> u32 \<Rightarrow> ktask \<Rightarrow> (nat \<Rightarrow> mp2 \<Rightarrow> mp2) \<Rightarrow> (nat \<Rightarrow> u64) \<Rightarrow> addr option \<Rightarrow>
   int \<Rightarrow> int \<Rightarrow> u32 \<Rightarrow> string list \<Rightarrow> mp2 \<Rightarrow> (int \<times> nat \<times> nat \<times> mp2) progress kres" where
  "userapp_main opened pid_task USER_HZ self env clock cache_alloc clk1 clk2 curr_pid argv s =
     (if length argv \<noteq> 4 then Inr (Done (1, 0, 0, s))
      else
        let period = word_of_int (atoi (argv ! 1));
            computation_times = atoi (argv ! 2);
            computation = computation_ms clk1 clk2 computation_times;
            run_times = word_of_int (atoi (argv ! 3)) :: u32
        in if \<not> opened then Inl NullDeref
        else bindK (mp2_mywrite (pid_now pid_task s) USER_HZ (clock 0) cache_alloc
            (regist_msg curr_pid period computation) s) (\<lambda>(n, s1).
          bindP (resumes self (env 0 s1)) (\<lambda>s2.
          bindK (mp2_myread True True 0 s2) (\<lambda>(n, bytes, off).
            if check_app curr_pid bytes \<noteq> 0 then Inr (Done (1, 0, 0, s2))
            else bindP (send pid_task USER_HZ self env clock 1 (yield_msg curr_pid) s2) (\<lambda>s3.
              bindP (loop_run (\<lambda>i. send pid_task USER_HZ self env clock (i + 1) (yield_msg curr_pid))
                  (sint run_times) computation_times 0 0 0 s3) (\<lambda>(jobs, rounds, s4).
              bindP (send pid_task USER_HZ self env clock (jobs + 2) (deregister_msg curr_pid) s4) (\<lambda>s5.
                Inr (Done (0, jobs, rounds, s5)))))))))"

section \<open>What the environment may do\<close>

fun event_pid :: "mp2_event \<Rightarrow> u32 option" where
  "event_pid (Register p P C a) = Some p"
| "event_pid (Yield j p) = Some p"
| "event_pid (Deregister p) = Some p"
| "event_pid _ = None"

text \<open>A transition in which no request names the pid \<open>p\<close> and the process of \<open>k\<close> does not end.\<close>

definition foreign ::
  "(u32 \<Rightarrow> ktask option) \<Rightarrow> u32 \<Rightarrow> u32 \<Rightarrow> ktask \<Rightarrow> mp2 \<Rightarrow> mp2_event \<Rightarrow> mp2 \<Rightarrow> bool" where
  "foreign pid_task USER_HZ p k s e s' =
     (mp2_trans pid_task USER_HZ s e s' \<and> event_pid e \<noteq> Some p \<and> e \<noteq> Exit k)"

definition others :: "(u32 \<Rightarrow> ktask option) \<Rightarrow> u32 \<Rightarrow> u32 \<Rightarrow> ktask \<Rightarrow> (mp2 \<Rightarrow> mp2) \<Rightarrow> bool" where
  "others pid_task USER_HZ p k f = (\<forall>s. \<exists>es. runs (foreign pid_task USER_HZ p k) s es (f s))"

section \<open>The nodes of one pid\<close>

definition own :: "mp2 \<Rightarrow> u32 \<Rightarrow> addr list" where
  "own s p = filter (\<lambda>a. map_option ts_pid (slab s a) = Some p) (HEAD s)"

lemma find_filter: "find P xs = (case filter P xs of [] \<Rightarrow> None | a # _ \<Rightarrow> Some a)"
  by (induction xs) auto

lemma find_own: "mp2_inv s \<Longrightarrow> find_by_pid s p = Inr (case own s p of [] \<Rightarrow> None | a # _ \<Rightarrow> Some a)"
  by (simp add: find_by_pid_ok mp2_inv_def own_def find_filter)

lemma pids_own:
  assumes "mp2_inv s"
  shows "p \<in> set (pids s) \<longleftrightarrow> own s p \<noteq> []"
proof -
  have "map_option ts_pid (slab s a) = Some p \<longleftrightarrow> ts_pid (the (slab s a)) = p" if "a \<in> set (HEAD s)" for a
    using klist_dom [OF assms] that by (cases "slab s a") auto
  then show ?thesis by (auto simp: pids_def own_def filter_empty_conv)
qed

lemma own_static: "same_static s s' \<Longrightarrow> own s' p = own s p"
proof -
  assume st: "same_static s s'"
  have "map_option ts_pid (slab s' a) = map_option ts_pid (slab s a)" for a
    using st by (rule same_static_map) (simp add: static_of_def)
  with st show ?thesis by (simp add: own_def same_static_def)
qed

lemma filter_remove1_other: "\<not> P b \<Longrightarrow> filter P (remove1 b xs) = filter P xs"
  by (induction xs) auto

section \<open>The task of one process\<close>

text \<open>Every linked struct points to the task of its pid.\<close>

definition tasks_from :: "(u32 \<Rightarrow> ktask option) \<Rightarrow> mp2 \<Rightarrow> bool" where
  "tasks_from tab s = (\<forall>b u l. slab s b = Some u \<longrightarrow> ts_tsk u = Some l \<longrightarrow> tab (ts_pid u) = Some l)"

lemma tasks_from_static:
  assumes "same_static s s'" and "tasks_from tab s"
  shows "tasks_from tab s'"
proof -
  have "map_option (\<lambda>t. (ts_tsk t, ts_pid t)) (slab s' b) = map_option (\<lambda>t. (ts_tsk t, ts_pid t)) (slab s b)" for b
    using assms(1) by (rule same_static_map) (simp add: static_of_def)
  then show ?thesis
    using assms(2) unfolding tasks_from_def by (metis (mono_tags, lifting) map_option_eq_Some prod.inject)
qed

lemma mp2_trans_from:
  assumes "mp2_trans tab hz s e s'" and fr: "tasks_from tab s"
  shows "tasks_from tab s'"
proof -
  have reg: "tasks_from tab s'" if "reg_entry (pid_now tab s) (Some a) p P C s = Inr (r, s')" for a p P C r
    using that fr
    by (cases rule: reg_entry_cases) (auto simp: tasks_from_def new_task_def mp2_find_task_by_pid_def)
  have dereg: "tasks_from tab s'" if "dereg_entry p s = Inr (r, s')" for p r
    using that fr by (cases rule: dereg_entry_cases) (auto simp: tasks_from_def)
  have exit: "tasks_from tab (s\<lparr>exited := x\<rparr>)" for x
    using fr by (simp add: tasks_from_def)
  have static: "tasks_from tab s'" if "same_static s s'" using that fr by (rule tasks_from_static)
  from assms(1) show ?thesis
    by (cases rule: mp2_trans.cases)
      (auto intro: static yield_entry_static timer_static dispatch_fn_static exit dest: reg dereg)
qed

lemma reachable_from: "mp2_reachable tab hz good s \<Longrightarrow> tasks_from tab s"
proof (induction rule: mp2_reachable.induct)
  case (loaded k c s)
  then show ?case using mp2_init_loaded by (simp add: tasks_from_def)
qed (blast intro: mp2_trans_from)

text \<open>
  The pid \<open>p\<close> is the only one of the task \<open>k\<close>, whose process lives, in a well-formed state.
\<close>

definition task_alive :: "(u32 \<Rightarrow> ktask option) \<Rightarrow> u32 \<Rightarrow> ktask \<Rightarrow> mp2 \<Rightarrow> bool" where
  "task_alive tab p k s = (mp2_inv s \<and> tasks_from tab s \<and> k \<notin> exited s
     \<and> tab p = Some k \<and> (\<forall>q. tab q = Some k \<longrightarrow> q = p))"

lemma other_task:
  assumes "task_alive tab p k s" and "slab s b = Some u" and "ts_tsk u = Some l" and "ts_pid u \<noteq> p"
  shows "l \<noteq> k"
  using assms unfolding task_alive_def tasks_from_def by metis

lemma blocked_append: "blocked k (xs @ ys) = foldl (sleep_step k) (blocked k xs) ys"
  by (simp add: blocked_def)

lemma blocked_mono: "Set_task_uninterruptible k \<notin> set ys \<Longrightarrow> blocked k (xs @ ys) \<Longrightarrow> blocked k xs"
proof (induction ys rule: rev_induct)
  case (snoc y ys)
  then have "sleep_step k (blocked k (xs @ ys)) y" by (simp add: blocked_append)
  with snoc show ?case by (cases y) (auto split: if_splits)
qed simp

subsection \<open>What the handlers do for one pid leaves the others\<close>

lemma yield_other:
  assumes "yield_entry hz j q s = Inr s'"
  obtains b u cs where "find_by_pid s q = Inr (Some b)" "slab s b = Some u"
    "\<forall>a. a \<noteq> b \<longrightarrow> slab s' a = slab s a" "curr_tsk s' = curr_tsk s \<or> curr_tsk s' = None"
    "klog s' = klog s @ cs" "\<forall>l. Set_task_uninterruptible l \<in> set cs \<longrightarrow> ts_tsk u = Some l"
  using assms
proof (cases rule: yield_entry_cases)
  case (activate b u)
  then show thesis by (intro that [of b u "[Wake_up_dispatch, Schedule]"]) auto
next
  case (early b u r s1 s2 s3)
  from early(5) obtain l where l: "ts_tsk u = Some l"
    and s1: "s1 = emit (Set_task_uninterruptible l) (set_node b (u\<lparr>ts_state := SLEEPING\<rparr>) (clear_curr b s))"
    using early(1,2) by (auto elim!: set_task_sleep_cases)
  show thesis
    using early l s1
    by (intro that [of b u "[Set_task_uninterruptible l, Wake_up_dispatch, Schedule]"])
      (auto simp: mod_timer_def add_period_def kres_simps split: if_splits)
next
  case (late b u s3)
  then show thesis
    by (intro that [of b u "[Wake_up_dispatch, Schedule]"]) (auto simp: add_period_def kres_simps)
qed

text \<open>The struct at an address after a turn of the dispatcher.\<close>

lemma demoted_at:
  "slab s a = Some t \<Longrightarrow> demoted_slab s a =
     Some (if curr_tsk s = Some a \<and> ts_state t = RUNNING then t\<lparr>ts_state := READY\<rparr> else t)"
  by (cases "curr_tsk s") (auto simp: demoted_slab_def)

lemma dispatch_other:
  assumes d: "dispatch_fn s = Inr s'" and t: "slab s a = Some t"
  obtains u cs where "slab s' a = Some u" "ts_tsk u = ts_tsk t" "klog s' = klog s @ cs"
    "\<forall>l. Set_task_uninterruptible l \<notin> set cs"
    "ts_state u = SLEEPING \<longrightarrow> ts_state t = SLEEPING \<and> ts_tm u = ts_tm t"
    "curr_tsk s' = Some a \<longrightarrow> curr_tsk s = Some a \<or> (\<forall>k. ts_tsk t = Some k \<longrightarrow> \<not> blocked k (klog s'))"
  using d
proof (cases rule: dispatch_fn_cases)
  case (keep nx)
  with t show thesis by (intro that [of t "[Set_current_interruptible, Schedule]"]) simp_all
next
  case (switch n s1 s2)
  note eff = demote_effect [OF switch(3)]
  from switch(4) obtain v l where v: "slab s1 n = Some v" "ts_tsk v = Some l"
    and s2: "s2 = (emit (Sched_setscheduler l SCHED_FIFO 99) (set_node n (v\<lparr>ts_state := RUNNING\<rparr>)
      (emit (Wake_up_process l) s1)))\<lparr>curr_tsk := Some n\<rparr>"
    by (rule set_new_task_cases)
  define cs where "cs = demote_calls s @ [Wake_up_process l, Sched_setscheduler l SCHED_FIFO 99,
    Set_current_interruptible, Schedule]"
  have s': "klog s' = klog s @ cs" "curr_tsk s' = Some n" "slab s' = (demoted_slab s)(n \<mapsto> v\<lparr>ts_state := RUNNING\<rparr>)"
    using switch(5) s2 eff by (simp_all add: cs_def)
  have none: "\<forall>l. Set_task_uninterruptible l \<notin> set cs"
    by (simp add: cs_def demote_calls_def split: option.split)
  show thesis
  proof (cases "n = a")
    case True
    then have "v = t" using v(1) t switch(2) by (auto simp: eff(1) demoted_slab_def split: option.splits if_splits)
    moreover have "\<not> blocked l (klog s')" by (simp add: s'(1) cs_def blocked_append)
    ultimately show thesis
      using True s' none v(2) by (intro that [of "v\<lparr>ts_state := RUNNING\<rparr>" cs]) auto
  next
    case False
    with demoted_at [OF t] s' none show thesis
      by (intro that [of "if curr_tsk s = Some a \<and> ts_state t = RUNNING then t\<lparr>ts_state := READY\<rparr> else t" cs])
        (auto split: if_splits)
  qed
qed

subsection \<open>The invariant of a registered process\<close>

text \<open>
  The process \<open>p\<close> with the task \<open>k\<close> is registered, once; and if its task is asleep, then it is not the
  current one and it will be made ready: its timer is pending unless it is ready already.
\<close>

definition enrolled :: "(u32 \<Rightarrow> ktask option) \<Rightarrow> u32 \<Rightarrow> ktask \<Rightarrow> mp2 \<Rightarrow> bool" where
  "enrolled tab p k s = (task_alive tab p k s \<and> (\<exists>a t. own s p = [a] \<and> slab s a = Some t \<and> ts_tsk t = Some k
     \<and> (blocked k (klog s) \<longrightarrow> curr_tsk s \<noteq> Some a \<and> (ts_state t = SLEEPING \<longrightarrow> ts_tm t \<noteq> None))))"

lemma enrolledE:
  assumes "enrolled tab p k s"
  obtains a t where "task_alive tab p k s" "mp2_inv s" "own s p = [a]" "slab s a = Some t" "ts_tsk t = Some k"
    "ts_pid t = p" "blocked k (klog s) \<longrightarrow> curr_tsk s \<noteq> Some a \<and> (ts_state t = SLEEPING \<longrightarrow> ts_tm t \<noteq> None)"
proof -
  from assms obtain a t where t: "task_alive tab p k s" "own s p = [a]" "slab s a = Some t" "ts_tsk t = Some k"
    "blocked k (klog s) \<longrightarrow> curr_tsk s \<noteq> Some a \<and> (ts_state t = SLEEPING \<longrightarrow> ts_tm t \<noteq> None)"
    by (auto simp: enrolled_def)
  moreover have "a \<in> set (own s p)" using t(2) by simp
  with t(3) have "ts_pid t = p" by (simp add: own_def)
  ultimately show thesis using that by (simp add: task_alive_def)
qed

lemma enrolledI:
  assumes "task_alive tab p k s" and "own s p = [a]" and "slab s a = Some t" and "ts_tsk t = Some k"
    and "blocked k (klog s) \<Longrightarrow> curr_tsk s \<noteq> Some a \<and> (ts_state t = SLEEPING \<longrightarrow> ts_tm t \<noteq> None)"
  shows "enrolled tab p k s"
  using assms by (auto simp: enrolled_def)

lemma foreign_alive:
  assumes "foreign tab hz p k s e s'" and "task_alive tab p k s"
  shows "task_alive tab p k s'"
proof -
  have tr: "mp2_trans tab hz s e s'" and e: "e \<noteq> Exit k" using assms(1) by (simp_all add: foreign_def)
  have ex: "k \<notin> exited s" using assms(2) by (simp add: task_alive_def)
  have reg: "k \<notin> exited s'" if "reg_entry (pid_now tab s) (Some a) q P C s = Inr (r, s')" for a q P C r
    using that ex by (cases rule: reg_entry_cases) simp_all
  have dereg: "k \<notin> exited s'" if "dereg_entry q s = Inr (r, s')" for q r
    using that ex by (cases rule: dereg_entry_cases) simp_all
  from tr have "k \<notin> exited s'"
    by (cases rule: mp2_trans.cases)
      (use e ex in \<open>auto simp: same_static_def
        dest: yield_entry_static timer_static dispatch_fn_static reg dereg\<close>)
  with assms(2) mp2_trans_inv [OF tr] mp2_trans_from [OF tr] show ?thesis by (simp add: task_alive_def)
qed

lemma own_reg:
  assumes "mp2_inv s" and "slab s a = None" and "reg_entry tab (Some a) q P C s = Inr (r, s')" and "q \<noteq> p"
  shows "own s' p = own s p"
proof -
  have a: "a \<notin> set (HEAD s)" using assms(1,2) by (auto simp: mp2_inv_def klist_inv_def)
  have "own (link_task a (new_task tab q P C) t) p = own s p" if "HEAD t = HEAD s" "slab t = slab s" for t
    using a assms(4) that unfolding own_def by (auto simp: new_task_def intro!: filter_cong)
  with assms(3) show ?thesis by (auto elim!: reg_entry_cases)
qed

lemma own_dereg:
  assumes "dereg_entry q s = Inr (r, s')" and "q \<noteq> p"
  shows "own s' p = own s p"
  using assms(1)
proof (cases rule: dereg_entry_cases)
  case (found b t nd)
  have b: "map_option ts_pid (slab s b) \<noteq> Some p"
    using find_by_pid_SomeD [OF found(1)] assms(2) by auto
  have "own s' p = filter (\<lambda>a. map_option ts_pid (slab s a) = Some p) (remove1 b (HEAD s))"
    unfolding own_def found(5) using b by (auto intro!: filter_cong)
  also have "\<dots> = own s p" unfolding own_def using b by (rule filter_remove1_other)
  finally show ?thesis .
qed simp

lemma foreign_own: "mp2_inv s \<Longrightarrow> foreign tab hz p k s e s' \<Longrightarrow> own s' p = own s p"
  unfolding foreign_def
  by (elim conjE, erule mp2_trans.cases)
    (auto intro: own_reg own_dereg own_static yield_entry_static timer_static dispatch_fn_static,
     simp add: own_def)

lemma foreign_calls:
  assumes f: "foreign tab hz p k s e s'" and alive: "task_alive tab p k s"
  shows "\<exists>cs. klog s' = klog s @ cs \<and> Set_task_uninterruptible k \<notin> set cs"
proof -
  have tr: "mp2_trans tab hz s e s'" and e: "event_pid e \<noteq> Some p" using f by (simp_all add: foreign_def)
  from tr show ?thesis
  proof (cases rule: mp2_trans.cases)
    case (register a q P C r)
    from register(3) show ?thesis by (cases rule: reg_entry_cases) simp_all
  next
    case (yield j q)
    from yield(2) obtain b u cs where b: "find_by_pid s q = Inr (Some b)" "slab s b = Some u"
      "klog s' = klog s @ cs" "\<forall>l. Set_task_uninterruptible l \<in> set cs \<longrightarrow> ts_tsk u = Some l"
      by (rule yield_other)
    have "ts_pid u \<noteq> p" using find_by_pid_SomeD [OF b(1)] b(2) e yield(1) by auto
    then have "ts_tsk u \<noteq> Some k" using other_task [OF alive b(2)] by blast
    with b show ?thesis by blast
  next
    case (deregister q r)
    from deregister(2) show ?thesis by (cases rule: dereg_entry_cases) simp_all
  next
    case (timer a t x j)
    then show ?thesis by (auto simp: mp2_tm_callback_def kres_simps)
  next
    case dispatch
    from dispatch(2) show ?thesis
    proof (cases rule: dispatch_fn_cases)
      case (switch n s1 s2)
      from switch(4) obtain v l where "klog s2 = klog s1 @ [Wake_up_process l, Sched_setscheduler l SCHED_FIFO 99]"
        by (auto elim!: set_new_task_cases)
      with switch(5) demote_effect [OF switch(3)] show ?thesis
        by (simp add: demote_calls_def split: option.split)
    qed simp
  next
    case (exit l)
    then show ?thesis by simp
  qed
qed

lemma foreign_blocked:
  "foreign tab hz p k s e s' \<Longrightarrow> task_alive tab p k s \<Longrightarrow> blocked k (klog s') \<Longrightarrow> blocked k (klog s)"
  using foreign_calls blocked_mono by metis

text \<open>The struct of a registered process after a step of the environment.\<close>

lemma foreign_node:
  assumes f: "foreign tab hz p k s e s'" and alive: "task_alive tab p k s"
    and a: "own s p = [a]" "slab s a = Some t" "ts_tsk t = Some k"
  shows "\<exists>u. slab s' a = Some u \<and> ts_tsk u = Some k \<and> (blocked k (klog s') \<longrightarrow>
    (curr_tsk s' = Some a \<longrightarrow> curr_tsk s = Some a)
    \<and> (ts_state u = SLEEPING \<longrightarrow> ts_state t = SLEEPING \<and> ts_tm u = ts_tm t))"
proof -
  have tr: "mp2_trans tab hz s e s'" and e: "event_pid e \<noteq> Some p" using f by (simp_all add: foreign_def)
  have "a \<in> set (own s p)" using a(1) by simp
  then have pid: "ts_pid t = p" using a(2) by (simp add: own_def)
  from tr show ?thesis
  proof (cases rule: mp2_trans.cases)
    case (register b q P C r)
    from register(3) show ?thesis
      by (cases rule: reg_entry_cases) (use register(2) a in auto)
  next
    case (yield j q)
    from yield(2) obtain b u where b: "find_by_pid s q = Inr (Some b)" "slab s b = Some u"
      "\<forall>a. a \<noteq> b \<longrightarrow> slab s' a = slab s a" "curr_tsk s' = curr_tsk s \<or> curr_tsk s' = None"
      by (rule yield_other)
    have "b \<noteq> a" using find_by_pid_SomeD [OF b(1)] b(2) e yield(1) a(2) pid by auto
    with b a show ?thesis by auto
  next
    case (deregister q r)
    from deregister(2) show ?thesis
    proof (cases rule: dereg_entry_cases)
      case (found b u nd)
      have "b \<noteq> a" using find_by_pid_SomeD [OF found(1)] e deregister(1) a(2) pid by auto
      with found(5) a show ?thesis by (auto split: if_splits)
    qed (use a in auto)
  next
    case (timer b u x j)
    then show ?thesis using a by (cases "b = a") (auto simp: mp2_tm_callback_def kres_simps split: if_splits)
  next
    case dispatch
    from dispatch(2) a(2) show ?thesis by (rule dispatch_other) (use a(3) in auto)
  next
    case (exit l)
    then show ?thesis using a by auto
  qed
qed

lemma foreign_enrolled:
  assumes "foreign tab hz p k s e s'" and "enrolled tab p k s"
  shows "enrolled tab p k s'"
proof -
  obtain a t where a: "task_alive tab p k s" "mp2_inv s" "own s p = [a]" "slab s a = Some t" "ts_tsk t = Some k"
    and w: "blocked k (klog s) \<longrightarrow> curr_tsk s \<noteq> Some a \<and> (ts_state t = SLEEPING \<longrightarrow> ts_tm t \<noteq> None)"
    using assms(2) by (rule enrolledE)
  obtain u where u: "slab s' a = Some u" "ts_tsk u = Some k" "blocked k (klog s') \<longrightarrow>
    (curr_tsk s' = Some a \<longrightarrow> curr_tsk s = Some a)
    \<and> (ts_state u = SLEEPING \<longrightarrow> ts_state t = SLEEPING \<and> ts_tm u = ts_tm t)"
    using foreign_node [OF assms(1) a(1,3-5)] by blast
  have "own s' p = [a]" using foreign_own [OF a(2) assms(1)] a(3) by simp
  with foreign_alive [OF assms(1) a(1)] show ?thesis
    using u(1,2) by (rule enrolledI) (use foreign_blocked [OF assms(1) a(1)] u(3) w in auto)
qed

interpretation alive: safety_system "foreign tab hz p k" "task_alive tab p k" "task_alive tab p k" for tab hz p k
  by unfold_locales (auto intro: foreign_alive)

interpretation enrolled: safety_system "foreign tab hz p k" "enrolled tab p k" "enrolled tab p k" for tab hz p k
  by unfold_locales (auto intro: foreign_enrolled)

section \<open>The session of one process\<close>

lemma others_run:
  assumes "others tab hz p k f"
  obtains es where "runs (foreign tab hz p k) s es (f s)"
  using assms by (auto simp: others_def)

lemma others_alive: "others tab hz p k f \<Longrightarrow> task_alive tab p k s \<Longrightarrow> task_alive tab p k (f s)"
  by (metis others_run alive.run_keeps)

lemma others_enrolled: "others tab hz p k f \<Longrightarrow> enrolled tab p k s \<Longrightarrow> enrolled tab p k (f s)"
  by (metis others_run enrolled.run_keeps)

lemma others_same:
  assumes "others tab hz p k f" and "task_alive tab p k s"
  shows "own (f s) p = own s p" and "blocked k (klog (f s)) \<longrightarrow> blocked k (klog s)"
proof -
  obtain es where es: "runs (foreign tab hz p k) s es (f s)" using assms(1) by (rule others_run)
  have "own (f s) p = own s p \<and> (blocked k (klog (f s)) \<longrightarrow> blocked k (klog s))"
    by (rule alive.run_relates [OF es assms(2)])
      (auto simp: task_alive_def dest: foreign_own intro: foreign_blocked [unfolded task_alive_def])
  then show "own (f s) p = own s p" and "blocked k (klog (f s)) \<longrightarrow> blocked k (klog s)" by simp_all
qed

lemma enrolled_find:
  assumes "enrolled tab p k s"
  obtains a t where "find_by_pid s p = Inr (Some a)" "own s p = [a]" "slab s a = Some t" "ts_tsk t = Some k"
    "blocked k (klog s) \<longrightarrow> curr_tsk s \<noteq> Some a \<and> (ts_state t = SLEEPING \<longrightarrow> ts_tm t \<noteq> None)"
  using assms by (rule enrolledE) (use that in \<open>simp add: find_own\<close>)

lemma enrolled_yield:
  assumes "enrolled tab p k s" and run: "\<not> blocked k (klog s)"
  shows "\<exists>s' a t. yield_entry hz j p s = Inr s' \<and> enrolled tab p k s' \<and> HEAD s' = HEAD s \<and> own s p = [a]
    \<and> slab s a = Some t \<and> slab s' = (slab s)(a \<mapsto> yielded hz j t) \<and> (blocked k (klog s') \<longleftrightarrow> sleeps j t)"
proof -
  have alive: "task_alive tab p k s" and inv: "mp2_inv s" and ex: "k \<notin> exited s"
    using assms(1) by (auto simp: enrolled_def task_alive_def)
  obtain a t where a: "find_by_pid s p = Inr (Some a)" "own s p = [a]" "slab s a = Some t" "ts_tsk t = Some k"
    using assms(1) by (rule enrolled_find)
  obtain s' where s': "yield_entry hz j p s = Inr s'" "HEAD s' = HEAD s" "slab s' = (slab s)(a \<mapsto> yielded hz j t)"
    "exited s' = exited s" "curr_tsk s' = (if sleeps j t \<and> curr_tsk s = Some a then None else curr_tsk s)"
    "klog s' = klog s @ (if sleeps j t then [Set_task_uninterruptible k] else []) @ [Wake_up_dispatch, Schedule]"
    using yield_entry_effect [OF inv a(1,3,4) ex, of hz j] by blast
  have st: "same_static s s'" using s'(1) by (rule yield_entry_static)
  have "task_alive tab p k s'"
    using alive yield_entry_inv [OF inv s'(1)] tasks_from_static [OF st] s'(4) by (simp add: task_alive_def)
  moreover have "own s' p = [a]" using own_static [OF st] a(2) by simp
  moreover have b: "blocked k (klog s') \<longleftrightarrow> sleeps j t" using run by (simp add: s'(6) blocked_append)
  ultimately have "enrolled tab p k s'"
    by (intro enrolledI [of tab p k s' a "yielded hz j t"])
      (use a(4) b in \<open>auto simp: s'(3,5) yielded_def sleeps_def\<close>)
  with s' a b show ?thesis by blast
qed

lemma enrolled_reg:
  assumes alive: "task_alive tab p k s" and a: "slab s a = None" and none: "own s p = []"
    and run: "\<not> blocked k (klog s)" and r: "reg_entry (pid_now tab s) (Some a) p P C s = Inr (r, s')"
  shows "task_alive tab p k s' \<and> \<not> blocked k (klog s') \<and> (if r = 0 then enrolled tab p k s' else own s' p = [])"
    and "r = 0 \<Longrightarrow> HEAD s' = HEAD s @ [a] \<and> slab s' a = Some (new_task (pid_now tab s) p P C)"
proof -
  have inv: "mp2_inv s" using alive by (simp add: task_alive_def)
  have fr: "a \<notin> set (HEAD s)" using inv a by (auto simp: mp2_inv_def klist_inv_def)
  have "mp2_trans tab hz s (Register p P C a) s'" for hz using a r by (rule mp2_trans.register)
  then have inv': "mp2_inv s'" "tasks_from tab s'"
    using inv alive by (auto simp: task_alive_def intro: mp2_trans_inv mp2_trans_from)
  have now: "pid_now tab s p = Some k" using alive by (simp add: task_alive_def)
  show "task_alive tab p k s' \<and> \<not> blocked k (klog s') \<and> (if r = 0 then enrolled tab p k s' else own s' p = [])"
    using r
  proof (cases rule: reg_entry_cases)
    case (linked nd)
    have alive': "task_alive tab p k s'" using alive inv' linked(4) by (simp add: task_alive_def)
    moreover have "own s' p = [a]"
      using none fr by (auto simp: own_def linked(4) new_task_def filter_empty_conv)
    moreover have "slab s' a = Some (new_task (pid_now tab s) p P C)" by (simp add: linked(4))
    moreover have nb: "\<not> blocked k (klog s')" using run by (simp add: linked(4))
    ultimately have "enrolled tab p k s'"
      using now by (intro enrolledI) (auto simp: new_task_def mp2_find_task_by_pid_def)
    with alive' nb linked(3) show ?thesis by simp
  qed (use alive run none in simp)
  show "r = 0 \<Longrightarrow> HEAD s' = HEAD s @ [a] \<and> slab s' a = Some (new_task (pid_now tab s) p P C)"
    using r by (auto elim!: reg_entry_cases)
qed

lemma enrolled_dereg:
  assumes "enrolled tab p k s"
  shows "\<exists>s'. dereg_entry p s = Inr (0, s') \<and> find_by_pid s' p = Inr None"
proof -
  obtain a where inv: "mp2_inv s" and a: "own s p = [a]" using assms by (auto elim: enrolledE)
  obtain r s' where d: "dereg_entry p s = Inr (r, s')"
    using dereg_entry_ok [OF inv, of p] by (auto elim: okE)
  have fa: "find_by_pid s p = Inr (Some a)" using find_own [OF inv] a by simp
  from d have "r = 0 \<and> own s' p = []"
  proof (cases rule: dereg_entry_cases)
    case absent
    with fa show ?thesis by simp
  next
    case (found b t nd)
    then have "b = a" using fa by simp
    with found have "own s' p = filter (\<lambda>c. c \<noteq> a \<and> map_option ts_pid (slab s c) = Some p) (remove1 a (HEAD s))"
      by (auto simp: own_def intro!: filter_cong)
    also have "\<dots> = filter (\<lambda>c. c \<noteq> a) (own s p)"
      using inv by (simp add: own_def filter_remove1_other conj_commute)
    finally show ?thesis using a found(3) by simp
  qed
  with d find_own [OF dereg_entry_inv [OF inv d], of p] show ?thesis by auto
qed


subsection \<open>Calls and loops of the program\<close>

lemma bindP_simps [simp]: "bindP (Inr (Done v)) f = f v" "bindP (Inr (Asleep y)) f = Inr (Asleep y)"
  by (simp_all add: bindP_def)

text \<open>A call either finds the process still asleep, in a state with \<open>Q\<close>, or returns with \<open>I\<close>.\<close>

definition ends_with :: "(mp2 \<Rightarrow> bool) \<Rightarrow> ('a \<Rightarrow> bool) \<Rightarrow> 'a progress kres \<Rightarrow> bool" where
  "ends_with Q I r = ((\<exists>y. r = Inr (Asleep y) \<and> Q y) \<or> (\<exists>v. r = Inr (Done v) \<and> I v))"

lemma ends_with_simps [simp]: "ends_with Q I (Inr (Done v)) = I v" "ends_with Q I (Inr (Asleep y)) = Q y"
  by (simp_all add: ends_with_def)

lemma ends_with_bindP:
  assumes "ends_with Q I r" and "\<And>v. I v \<Longrightarrow> ends_with Q J (f v)"
  shows "ends_with Q J (bindP r f)"
  using assms(1) unfolding ends_with_def [of Q I]
proof (elim disjE exE conjE)
  fix y
  assume "r = Inr (Asleep y)" "Q y"
  then show ?thesis by (simp add: ends_with_def)
next
  fix v
  assume "r = Inr (Done v)" "I v"
  with assms(2) [of v] show ?thesis by simp
qed

lemma ends_with_mono: "ends_with Q I r \<Longrightarrow> (\<And>v. I v \<Longrightarrow> J v) \<Longrightarrow> ends_with Q J r"
  by (auto simp: ends_with_def)



text \<open>One call of \<open>factorial\<close> makes ten million rounds, half its limit.\<close>

lemma factorial_loop_rounds:
  assumes "0 \<le> m" and "i = FACTORIAL_N - 2 * m"
  shows "factorial_loop 0 i r = (0, r + nat m)"
  using assms
proof (induction "nat m" arbitrary: m i r)
  case 0
  then show ?case by (simp add: factorial_loop.simps)
next
  case (Suc n)
  have "n = nat (m - 1)" "0 \<le> m - 1" "i + 1 + 1 = FACTORIAL_N - 2 * (m - 1)" using Suc.hyps(2) Suc.prems by auto
  from Suc.hyps(1) [OF this, of "r + 1"] have "factorial_loop 0 (i + 1 + 1) (r + 1) = (0, r + 1 + nat (m - 1))"
    by simp
  moreover have "i < FACTORIAL_N" "nat m = Suc (nat (m - 1))" using Suc.hyps(2) Suc.prems by auto
  ultimately show ?case by (subst factorial_loop.simps) simp
qed

lemma factorial_app_rounds: "factorial_app = (0, 10000000)"
  using factorial_loop_rounds [of 10000000 0 0] by (simp add: factorial_app_def FACTORIAL_N_def)

lemma job_loop_rounds: "i \<le> n \<Longrightarrow> job_loop n i r = r + nat (n - i) * 10000000"
proof (induction n i r rule: job_loop.induct)
  case (1 n i r)
  show ?case
  proof (cases "i < n")
    case True
    have "nat (n - i) = Suc (nat (n - (i + 1)))" using True by simp
    with True 1 show ?thesis by (subst job_loop.simps) (simp add: factorial_app_rounds)
  qed (use 1 in \<open>simp add: job_loop.simps\<close>)
qed

lemma job_rounds: "job_loop n 0 r = r + nat n * 10000000"
proof (cases "0 \<le> n")
  case True
  then show ?thesis by (simp add: job_loop_rounds)
next
  case False
  then show ?thesis by (simp add: job_loop.simps [of n 0])
qed

lemma loop_run_ends:
  assumes step: "\<And>i x. I x \<Longrightarrow> ends_with Q I (yld i x)" and "I s" and "time \<le> n"
  shows "ends_with Q
    (\<lambda>(j, r, s'). j = jobs + nat (n - time) \<and> r = rounds + nat (n - time) * (nat ct * 10000000) \<and> I s')
    (loop_run yld n ct time jobs rounds s)"
  using assms(2,3)
proof (induction "nat (n - time)" arbitrary: time jobs rounds s)
  case 0
  then show ?case by (simp add: loop_run.simps ends_with_def)
next
  case (Suc m)
  then have lt: "time < n" by simp
  show ?case
  proof (cases "n \<le> time + 1")
    case True
    then have "n = time + 1" using lt by simp
    then show ?thesis using Suc.prems by (simp add: loop_run.simps ends_with_def job_rounds)
  next
    case False
    let ?r = "rounds + nat ct * 10000000"
    have m: "m = nat (n - (time + 1))" and le: "time + 1 \<le> n" using Suc.hyps(2) lt by simp_all
    have n: "nat (n - time) = Suc m" using Suc.hyps(2) by simp
    have run: "loop_run yld n ct time jobs rounds s =
        bindP (yld (jobs + 1) s) (\<lambda>s'. loop_run yld n ct (time + 1) (jobs + 1) ?r s')"
      using lt False by (simp add: loop_run.simps [of yld n ct time] Let_def job_rounds)
    show ?thesis
      unfolding run n
    proof (rule ends_with_bindP [OF step [OF Suc.prems(1)]])
      fix y
      assume "I y"
      from Suc.hyps(1) [OF m this le, of "jobs + 1" ?r]
      show "ends_with Q (\<lambda>(j, r, s'). j = jobs + Suc m \<and> r = rounds + Suc m * (nat ct * 10000000) \<and> I s')
          (loop_run yld n ct (time + 1) (jobs + 1) ?r y)"
        unfolding m [symmetric] by (rule ends_with_mono) (auto simp: algebra_simps)
    qed
  qed
qed

text \<open>The check after registering: it passes exactly for a registered process.\<close>

lemma check_after:
  assumes "mp2_inv s" and "length (HEAD s) \<le> 169" and "p \<noteq> 0"
  obtains n bytes where "mp2_myread True True 0 s = Inr (n, bytes, n)"
    "check_app p bytes = (if own s p \<noteq> [] then 0 else 1)"
  using myread_check [OF assms] pids_own [OF assms(1)] by fastforce

text \<open>What is left of the program once the check has succeeded.\<close>

definition jobs_and_leave ::
  "(u32 \<Rightarrow> ktask option) \<Rightarrow> u32 \<Rightarrow> ktask \<Rightarrow> (nat \<Rightarrow> mp2 \<Rightarrow> mp2) \<Rightarrow> (nat \<Rightarrow> u64) \<Rightarrow> u32 \<Rightarrow> int \<Rightarrow> int \<Rightarrow> mp2 \<Rightarrow>
   (int \<times> nat \<times> nat \<times> mp2) progress kres" where
  "jobs_and_leave tab hz k env clock p n ct s =
     bindP (send tab hz k env clock 1 (yield_msg p) s) (\<lambda>s3.
     bindP (loop_run (\<lambda>i. send tab hz k env clock (i + 1) (yield_msg p)) n ct 0 0 0 s3) (\<lambda>(jobs, rounds, s4).
     bindP (send tab hz k env clock (jobs + 2) (deregister_msg p) s4) (\<lambda>s5. Inr (Done (0, jobs, rounds, s5)))))"

lemma jobs_and_leave_ends:
  assumes yld: "\<And>i x. I x \<Longrightarrow> ends_with Q I (send tab hz k env clock i (yield_msg p) x)"
    and leave: "\<And>i x. I x \<Longrightarrow> ends_with Q R (send tab hz k env clock i (deregister_msg p) x)"
    and "I s"
  shows "ends_with Q (\<lambda>(e, jobs, rounds, s'). e = 0 \<and> jobs = nat n \<and> rounds = nat n * (nat ct * 10000000) \<and> R s')
    (jobs_and_leave tab hz k env clock p n ct s)"
  unfolding jobs_and_leave_def
proof (rule ends_with_bindP [OF yld [OF assms(3)]])
  fix s3
  assume s3: "I s3"
  have "ends_with Q (\<lambda>(j, r, s'). j = nat n \<and> r = nat n * (nat ct * 10000000) \<and> I s')
      (loop_run (\<lambda>i. send tab hz k env clock (i + 1) (yield_msg p)) n ct 0 0 0 s3)"
  proof (cases "0 \<le> n")
    case True
    then show ?thesis
      using loop_run_ends [of I Q "\<lambda>i. send tab hz k env clock (i + 1) (yield_msg p)" s3 0 n 0 0 ct] yld s3 by simp
  qed (use s3 in \<open>simp add: loop_run.simps ends_with_def\<close>)
  then show "ends_with Q (\<lambda>(e, jobs, rounds, s'). e = 0 \<and> jobs = nat n \<and> rounds = nat n * (nat ct * 10000000) \<and> R s')
      (bindP (loop_run (\<lambda>i. send tab hz k env clock (i + 1) (yield_msg p)) n ct 0 0 0 s3) (\<lambda>(jobs, rounds, s4).
       bindP (send tab hz k env clock (jobs + 2) (deregister_msg p) s4) (\<lambda>s5. Inr (Done (0, jobs, rounds, s5)))))"
    by (rule ends_with_bindP) (auto intro!: ends_with_bindP [OF leave])
qed

text \<open>The program up to its check.\<close>

lemma userapp_main_checked:
  assumes argv: "length argv = 4" and alive: "task_alive tab p k s" and a: "slab s a = None" "own s p = []"
    and run: "\<not> blocked k (klog s)" and p: "p \<noteq> 0" and env: "others tab hz p k (env 0)"
    and r: "reg_entry (pid_now tab s) (Some a) p (word_of_int (atoi (argv ! 1)))
      (computation_ms clk1 clk2 (atoi (argv ! 2))) s = Inr (r, s1)"
    and few: "length (HEAD (env 0 s1)) \<le> 169"
  shows "userapp_main True tab hz k env clock (Some a) clk1 clk2 p argv s =
      (if r = 0 then jobs_and_leave tab hz k env clock p (sint (word_of_int (atoi (argv ! 3)) :: u32))
         (atoi (argv ! 2)) (env 0 s1)
       else Inr (Done (1, 0, 0, env 0 s1)))"
    and "if r = 0 then enrolled tab p k (env 0 s1) else find_by_pid (env 0 s1) p = Inr None"
proof -
  have s1: "task_alive tab p k s1" "\<not> blocked k (klog s1)" "if r = 0 then enrolled tab p k s1 else own s1 p = []"
    using enrolled_reg(1) [OF alive a run r] by simp_all
  note same = others_same [OF env s1(1)]
  have inv: "mp2_inv (env 0 s1)" using others_alive [OF env s1(1)] by (simp add: task_alive_def)
  have en: "if r = 0 then enrolled tab p k (env 0 s1) else own (env 0 s1) p = []"
    using s1(3) others_enrolled [OF env] same(1) by (auto split: if_splits)
  then have mem: "own (env 0 s1) p \<noteq> [] \<longleftrightarrow> r = 0" by (auto split: if_splits elim: enrolledE)
  obtain n bytes where "mp2_myread True True 0 (env 0 s1) = Inr (n, bytes, n)"
    "check_app p bytes = (if own (env 0 s1) p \<noteq> [] then 0 else 1)"
    using inv few p by (rule check_after)
  then show "userapp_main True tab hz k env clock (Some a) clk1 clk2 p argv s =
      (if r = 0 then jobs_and_leave tab hz k env clock p (sint (word_of_int (atoi (argv ! 3)) :: u32))
         (atoi (argv ! 2)) (env 0 s1)
       else Inr (Done (1, 0, 0, env 0 s1)))"
    using s1(2) same(2) mem argv r
    by (simp add: userapp_main_def Let_def mywrite_regist resumes_def jobs_and_leave_def)
  show "if r = 0 then enrolled tab p k (env 0 s1) else find_by_pid (env 0 s1) p = Inr None"
    using en find_own [OF inv, of p] by (auto split: if_splits)
qed

section \<open>The timers and the dispatcher alone\<close>

text \<open>
  What happens to the module between two calls when no other process makes a request: the timers
  that are pending expire one after the other, then the dispatcher runs.
\<close>

fun fire_timers :: "addr list \<Rightarrow> mp2 \<Rightarrow> mp2 kres" where
  "fire_timers [] s = Inr s"
| "fire_timers (a # as) s =
     bindK (deref (slab s) a) (\<lambda>t.
       if ts_tm t = None then fire_timers as s
       else bindK (mp2_tm_callback a (set_node a (t\<lparr>ts_tm := None\<rparr>) s)) (fire_timers as))"

definition idle_round :: "mp2 \<Rightarrow> mp2 kres" where
  "idle_round s = bindK (fire_timers (HEAD s) s) dispatch_fn"

definition undisturbed :: "mp2 \<Rightarrow> mp2" where
  "undisturbed s = (case idle_round s of Inl e \<Rightarrow> s | Inr s' \<Rightarrow> s')"

lemma fire_timers_runs:
  "fire_timers as s = Inr s' \<Longrightarrow> \<exists>es. runs (foreign tab hz p k) s es s'"
proof (induction as arbitrary: s)
  case (Cons a as)
  then obtain t where t: "slab s a = Some t" by (auto simp: kres_simps)
  show ?case
  proof (cases "ts_tm t")
    case None
    with Cons t show ?thesis by (simp add: deref_def)
  next
    case (Some e)
    with Cons.prems t obtain s1 where s1: "mp2_tm_callback a (set_node a (t\<lparr>ts_tm := None\<rparr>) s) = Inr s1"
      "fire_timers as s1 = Inr s'" by (auto simp: deref_def kres_simps)
    have "foreign tab hz p k s (Timer e a) s1"
      using mp2_trans.timer [OF t Some order_refl s1(1)] by (simp add: foreign_def)
    moreover obtain es where "runs (foreign tab hz p k) s1 es s'" using Cons.IH [OF s1(2)] by blast
    ultimately show ?thesis using runs_append runs_one by metis
  qed
qed auto

lemma undisturbed_others: "others tab hz p k undisturbed"
  unfolding others_def
proof
  fix s
  show "\<exists>es. runs (foreign tab hz p k) s es (undisturbed s)"
  proof (cases "idle_round s")
    case (Inl e)
    then show ?thesis by (auto simp: undisturbed_def)
  next
    case (Inr s')
    then obtain s1 where s1: "fire_timers (HEAD s) s = Inr s1" "dispatch_fn s1 = Inr s'"
      by (auto simp: idle_round_def kres_simps)
    have "foreign tab hz p k s1 Dispatch s'"
      using mp2_trans.dispatch [OF s1(2)] by (simp add: foreign_def)
    moreover obtain es where "runs (foreign tab hz p k) s es s1" using fire_timers_runs [OF s1(1)] by blast
    ultimately show ?thesis using Inr runs_step by (fastforce simp: undisturbed_def)
  qed
qed



text \<open>One round when the process at address \<open>a\<close> is the only one registered.\<close>

definition alone :: "(u32 \<Rightarrow> ktask option) \<Rightarrow> u32 \<Rightarrow> ktask \<Rightarrow> u32 \<Rightarrow> mp2 \<Rightarrow> bool" where
  "alone tab p k P s = (enrolled tab p k s \<and> (\<exists>a t. HEAD s = [a] \<and> slab s a = Some t \<and> ts_period t = P))"

lemma aloneE:
  assumes "alone tab p k P s"
  obtains a t where "enrolled tab p k s" "mp2_inv s" "k \<notin> exited s" "HEAD s = [a]" "own s p = [a]" "slab s a = Some t"
    "ts_period t = P" "ts_tsk t = Some k"
    "blocked k (klog s) \<longrightarrow> curr_tsk s \<noteq> Some a \<and> (ts_state t = SLEEPING \<longrightarrow> ts_tm t \<noteq> None)"
proof -
  obtain a t where a: "HEAD s = [a]" "slab s a = Some t" "ts_period t = P" and en: "enrolled tab p k s"
    using assms by (auto simp: alone_def)
  obtain b u where b: "task_alive tab p k s" "mp2_inv s" "own s p = [b]" "slab s b = Some u" "ts_tsk u = Some k"
    "blocked k (klog s) \<longrightarrow> curr_tsk s \<noteq> Some b \<and> (ts_state u = SLEEPING \<longrightarrow> ts_tm u \<noteq> None)"
    using en by (rule enrolledE)
  have "set (own s p) \<subseteq> set (HEAD s)" by (auto simp: own_def)
  then have "b = a" using a(1) b(3) by simp
  with a b en show thesis by (intro that [of a t]) (auto simp: task_alive_def)
qed

lemma fire_one:
  assumes "slab s a = Some t" and "dispatch_kth s = Kth_thread"
  obtains s1 t1 where "fire_timers [a] s = Inr s1" "slab s1 = (slab s)(a \<mapsto> t1)" "HEAD s1 = HEAD s"
    "curr_tsk s1 = curr_tsk s" "exited s1 = exited s" "blocked k (klog s1) \<longleftrightarrow> blocked k (klog s)"
    "static_of t1 = static_of t" "ts_next_period t1 = ts_next_period t"
    "ts_state t1 = (if ts_tm t \<noteq> None \<and> ts_state t = SLEEPING then READY else ts_state t)"
proof (cases "ts_tm t = None")
  case True
  with assms show thesis by (intro that [of s t]) (auto simp: deref_def)
next
  case False
  let ?t = "if ts_state t = SLEEPING then t\<lparr>ts_tm := None, ts_state := READY\<rparr> else t\<lparr>ts_tm := None\<rparr>"
  obtain s1 where "fire_timers [a] s = Inr s1" "slab s1 = (slab s)(a \<mapsto> ?t)" "HEAD s1 = HEAD s"
    "curr_tsk s1 = curr_tsk s" "exited s1 = exited s" "klog s1 = klog s @ [Wake_up_dispatch]"
    using assms False by (auto simp: deref_def mp2_tm_callback_def)
  then show thesis
    by (intro that [of s1 ?t]) (use False in \<open>auto simp: blocked_append static_of_def\<close>)
qed

lemma dispatch_one:
  assumes "HEAD s = [a]" and "slab s a = Some t" and "ts_tsk t = Some k" and "k \<notin> exited s"
    and "curr_tsk s = None \<or> curr_tsk s = Some a"
  obtains s1 t1 where "dispatch_fn s = Inr s1" "slab s1 = (slab s)(a \<mapsto> t1)" "HEAD s1 = HEAD s"
    "static_of t1 = static_of t" "ts_next_period t1 = ts_next_period t"
    "blocked k (klog s1) \<longleftrightarrow> blocked k (klog s) \<and>
      \<not> (ts_state t \<noteq> SLEEPING \<and> ts_period t < INT_MAX \<and> curr_tsk s = None)"
proof (cases "ts_state t \<noteq> SLEEPING \<and> ts_period t < INT_MAX \<and> curr_tsk s = None")
  case True
  let ?t = "t\<lparr>ts_state := RUNNING\<rparr>"
  obtain s1 where "dispatch_fn s = Inr s1" "slab s1 = (slab s)(a \<mapsto> ?t)" "HEAD s1 = HEAD s"
    "klog s1 = klog s @ [Wake_up_process k, Sched_setscheduler k SCHED_FIFO 99, Set_current_interruptible, Schedule]"
    using assms True by (auto simp: dispatch_fn_def deref_def set_new_task_def Let_def)
  then show thesis
    by (intro that [of s1 ?t]) (use True in \<open>auto simp: blocked_append static_of_def\<close>)
next
  case False
  then have "dispatch_fn s = Inr (emit Schedule (emit Set_current_interruptible s))"
    using assms by (auto simp: dispatch_fn_def deref_def)
  then show thesis
    by (rule that [of _ t]) (use assms(2) False in \<open>auto simp: blocked_append\<close>)
qed

lemma alone_round:
  assumes al: "alone tab p k P s"
  shows "alone tab p k P (undisturbed s)"
    and "blocked k (klog (undisturbed s)) \<longleftrightarrow> blocked k (klog s) \<and> INT_MAX \<le> P"
    and "map_option ts_next_period (slab (undisturbed s) (hd (HEAD s))) = map_option ts_next_period (slab s (hd (HEAD s)))"
    and "HEAD (undisturbed s) = HEAD s"
proof -
  obtain a t where a: "enrolled tab p k s" "mp2_inv s" "k \<notin> exited s" "HEAD s = [a]" "slab s a = Some t"
    "ts_period t = P" "ts_tsk t = Some k"
    and w: "blocked k (klog s) \<longrightarrow> curr_tsk s \<noteq> Some a \<and> (ts_state t = SLEEPING \<longrightarrow> ts_tm t \<noteq> None)"
    using al by (rule aloneE)
  have curr: "curr_tsk s = None \<or> curr_tsk s = Some a" using a(2,4) by (cases "curr_tsk s") (auto simp: mp2_inv_def)
  have kth: "dispatch_kth s = Kth_thread" using a(2) by (simp add: mp2_inv_def)
  obtain s1 t1 where s1: "fire_timers [a] s = Inr s1" "slab s1 = (slab s)(a \<mapsto> t1)" "HEAD s1 = HEAD s"
    "curr_tsk s1 = curr_tsk s" "exited s1 = exited s" "blocked k (klog s1) \<longleftrightarrow> blocked k (klog s)"
    "static_of t1 = static_of t" "ts_next_period t1 = ts_next_period t"
    "ts_state t1 = (if ts_tm t \<noteq> None \<and> ts_state t = SLEEPING then READY else ts_state t)"
    using a(5) kth by (rule fire_one)
  have h1: "HEAD s1 = [a]" "slab s1 a = Some t1" "ts_tsk t1 = Some k" "k \<notin> exited s1"
    "curr_tsk s1 = None \<or> curr_tsk s1 = Some a" and P1: "ts_period t1 = P"
    using s1 a curr by (simp_all add: static_of_def)
  obtain s2 t2 where s2: "dispatch_fn s1 = Inr s2" "slab s2 = (slab s1)(a \<mapsto> t2)" "HEAD s2 = HEAD s1"
    "static_of t2 = static_of t1" "ts_next_period t2 = ts_next_period t1"
    "blocked k (klog s2) \<longleftrightarrow> blocked k (klog s1) \<and>
      \<not> (ts_state t1 \<noteq> SLEEPING \<and> ts_period t1 < INT_MAX \<and> curr_tsk s1 = None)"
    using h1 by (rule dispatch_one)
  have u: "undisturbed s = s2" using s1(1) s2(1) a(4) by (simp add: undisturbed_def idle_round_def)
  show "HEAD (undisturbed s) = HEAD s" using u s2(3) s1(3) by simp
  show "map_option ts_next_period (slab (undisturbed s) (hd (HEAD s))) = map_option ts_next_period (slab s (hd (HEAD s)))"
    using u s2(2,5) s1(8) a(4,5) by simp
  show "blocked k (klog (undisturbed s)) \<longleftrightarrow> blocked k (klog s) \<and> INT_MAX \<le> P"
    using u s2(6) s1(4,6,9) P1 w curr by (auto simp: not_less)
  have "enrolled tab p k (undisturbed s)" using undisturbed_others a(1) by (rule others_enrolled)
  moreover have "ts_period t2 = P" using s2(4) P1 by (simp add: static_of_def)
  ultimately show "alone tab p k P (undisturbed s)"
    using u s2(2,3) h1(1) by (simp add: alone_def)
qed

lemma alone_yield:
  assumes "alone tab p k P s" and "\<not> blocked k (klog s)" and "HEAD s = [a]" and "slab s a = Some t"
  shows "\<exists>s'. yield_entry hz j p s = Inr s' \<and> alone tab p k P s' \<and> HEAD s' = [a]
    \<and> slab s' a = Some (yielded hz j t) \<and> (blocked k (klog s') \<longleftrightarrow> sleeps j t)"
proof -
  obtain b u where b: "enrolled tab p k s" "HEAD s = [b]" "own s p = [b]" "slab s b = Some u" "ts_period u = P"
    using assms(1) by (rule aloneE)
  then have "b = a" "u = t" using assms(3,4) by simp_all
  with enrolled_yield [OF b(1) assms(2), of hz j] b show ?thesis by (auto simp: alone_def)
qed

lemma alone_send_yield:
  assumes "alone tab p k P s" and "P < INT_MAX"
  shows "ends_with (\<lambda>_. False) (alone tab p k P) (send tab hz k (\<lambda>_. undisturbed) clock i (yield_msg p) s)"
proof -
  note round = alone_round [OF assms(1)]
  have "\<not> blocked k (klog (undisturbed s))" using round(2) assms(2) by (simp add: not_le)
  moreover obtain a t where "HEAD (undisturbed s) = [a]" "slab (undisturbed s) a = Some t"
    using round(1) by (auto simp: alone_def)
  ultimately obtain s' where "yield_entry hz (clock i) p (undisturbed s) = Inr s'" "alone tab p k P s'"
    using alone_yield [OF round(1)] by blast
  with \<open>\<not> blocked k (klog (undisturbed s))\<close> show ?thesis
    by (simp add: send_def resumes_def mywrite_yield)
qed

lemma alone_send_deregister:
  assumes "alone tab p k P s" and "P < INT_MAX"
  shows "ends_with (\<lambda>_. False) (\<lambda>s'. find_by_pid s' p = Inr None)
    (send tab hz k (\<lambda>_. undisturbed) clock i (deregister_msg p) s)"
proof -
  note round = alone_round [OF assms(1)]
  have "\<not> blocked k (klog (undisturbed s))" using round(2) assms(2) by (simp add: not_le)
  moreover have "enrolled tab p k (undisturbed s)" using round(1) by (simp add: alone_def)
  ultimately show ?thesis
    using enrolled_dereg by (fastforce simp: send_def resumes_def mywrite_deregister)
qed

text \<open>A task whose period is at least \<open>INT_MAX\<close> is never chosen, so nothing wakes it once it sleeps.\<close>

lemma never_woken:
  assumes "alone tab p k P s" and "INT_MAX \<le> P" and "blocked k (klog s)"
  shows "alone tab p k P ((undisturbed ^^ m) s) \<and> blocked k (klog ((undisturbed ^^ m) s))"
proof (induction m)
  case (Suc m)
  with alone_round [of tab p k P "(undisturbed ^^ m) s"] assms(2) show ?case by simp
qed (use assms in simp)

lemma send_never:
  assumes "alone tab p k P s" and "INT_MAX \<le> P" and "blocked k (klog s)"
  shows "send tab hz k (\<lambda>_. undisturbed) clock i msg s = Inr (Asleep (undisturbed s))"
  using alone_round(2) [OF assms(1)] assms(2,3) by (simp add: send_def resumes_def)

lemma send_yield_alone:
  assumes "alone tab p k P s" and "\<not> blocked k (klog s)" and "HEAD s = [a]"
    and "map_option ts_next_period (slab s a) = Some e"
  obtains s' where "send tab hz k (\<lambda>_. undisturbed) clock i (yield_msg p) s = Inr (Done s')"
    "alone tab p k P s'" "HEAD s' = [a]"
    "map_option ts_next_period (slab s' a) =
       Some (if e = 0 then clock i + period_ticks hz P else e + period_ticks hz P)"
    "blocked k (klog s') \<longleftrightarrow> e \<noteq> 0 \<and> clock i < e"
proof -
  note round = alone_round [OF assms(1)]
  have nb: "\<not> blocked k (klog (undisturbed s))" using round(2) assms(2) by simp
  have h: "HEAD (undisturbed s) = [a]" using round(4) assms(3) by simp
  then obtain t where t: "slab (undisturbed s) a = Some t" "ts_period t = P" using round(1) by (auto simp: alone_def)
  have e: "ts_next_period t = e" using round(3) assms(3,4) t(1) by simp
  obtain s' where "yield_entry hz (clock i) p (undisturbed s) = Inr s'" "alone tab p k P s'" "HEAD s' = [a]"
    "slab s' a = Some (yielded hz (clock i) t)" "blocked k (klog s') \<longleftrightarrow> sleeps (clock i) t"
    using alone_yield [OF round(1) nb h t(1), of hz "clock i"] by blast
  with nb e t(2) show thesis
    by (intro that [of s']) (auto simp: send_def resumes_def mywrite_yield sleeps_def yielded_def)
qed

text \<open>The second yield of such a task, when it comes before its release, is its last call.\<close>

lemma jobs_and_leave_never:
  assumes "alone tab p k P s" and "\<not> blocked k (klog s)" and "HEAD s = [a]"
    and "map_option ts_next_period (slab s a) = Some 0"
    and "INT_MAX \<le> P" and "2 \<le> n" and "clock 2 < clock 1 + period_ticks hz P"
  shows "\<exists>y. jobs_and_leave tab hz k (\<lambda>_. undisturbed) clock p n ct s = Inr (Asleep y)
    \<and> (\<forall>m. blocked k (klog ((undisturbed ^^ m) y)))"
proof -
  let ?send = "send tab hz k (\<lambda>_. undisturbed) clock"
  let ?e = "clock 1 + period_ticks hz P"
  obtain s3 where s3: "?send 1 (yield_msg p) s = Inr (Done s3)" "alone tab p k P s3" "HEAD s3 = [a]"
    "map_option ts_next_period (slab s3 a) = Some ?e" "\<not> blocked k (klog s3)"
    using assms(1-4) by (rule send_yield_alone [where i = 1 and e = 0 and hz = hz and clock = clock]) simp
  have "?e \<noteq> 0" using assms(7) by auto
  then obtain s4 where s4: "?send 2 (yield_msg p) s3 = Inr (Done s4)" "alone tab p k P s4" "blocked k (klog s4)"
    using s3(2,5,3,4) assms(7)
    by (auto intro: send_yield_alone [where i = 2 and e = ?e and hz = hz and clock = clock])
  let ?y = "undisturbed s4"
  have never: "?send i msg s4 = Inr (Asleep ?y)" for i msg using s4(2) assms(5) s4(3) by (rule send_never)
  have "blocked k (klog ((undisturbed ^^ m) ?y))" for m
    using never_woken [OF s4(2) assms(5) s4(3), of "Suc m"] by (simp add: funpow_swap1)
  moreover have "jobs_and_leave tab hz k (\<lambda>_. undisturbed) clock p n ct s = Inr (Asleep ?y)"
    using assms(6) s3(1) s4(1) never
    by (simp add: jobs_and_leave_def loop_run.simps [of _ n ct 0] loop_run.simps [of _ n ct 1] Let_def
        numeral_2_eq_2 [symmetric] split: if_splits)
  ultimately show ?thesis by blast
qed

section \<open>Properties\<close>


text \<open>
  Process 7 asks for three jobs of two computations each on a module without other tasks.
\<close>

definition session_argv :: "string list" where
  "session_argv = [''./userapp'', dec_nat 500, dec_nat 2, dec_nat 3]"

lemma session_args:
  "atoi (session_argv ! 1) = 500" "atoi (session_argv ! 2) = 2" "atoi (session_argv ! 3) = 3"
  by (simp_all add: session_argv_def atoi_dec_nat)

lemma session_computation: "computation_ms 0 43000 2 = 86"
  by (simp add: computation_ms_def helper_cost_def)

lemma session_start:
  "slab sample0 1 = None" "find_by_pid sample0 7 = Inr None" "HEAD sample0 = []" "(7 :: u32) \<noteq> 0"
  "sample_tab 7 = Some 70" "\<forall>q. sample_tab q = Some 70 \<longrightarrow> q = 7" "70 \<notin> exited sample0"
  "\<not> blocked 70 (klog sample0)" "length session_argv = 4"
  by (simp_all add: find_by_pid_def sample_defs session_argv_def blocked_def)

lemma session_reg:
  "reg_entry (pid_now sample_tab sample0) (Some 1) 7 (word_of_int (atoi (session_argv ! 1)))
     (computation_ms 0 43000 (atoi (session_argv ! 2))) sample0 = Inr (0, sample1)"
  unfolding session_args session_computation using sample1_reg_now by simp


text \<open>
  C15: The program alone.  Suppose no other task is registered, no other process makes a request, and
  between any two calls of the program the pending timers expire and the dispatcher runs.  If the
  task is admitted and its period is below \<open>INT_MAX\<close>, the run ends: every sleep is ended by the
  dispatcher, all jobs are done with all their rounds, the pid is deregistered and the exit code
  is 0.  If the period is \<open>INT_MAX\<close> or more, for instance because it was given as -1, the
  dispatcher never chooses the task: asked for two jobs or more, and back from its first job before
  its first release, the program sleeps forever, however often timers and dispatcher run.
\<close>

theorem userapp_alone_finishes:
  assumes "mp2_reachable tab hz good s" and "HEAD s = []" and "p \<noteq> 0" and "tab p = Some k"
    and "\<forall>q. tab q = Some k \<longrightarrow> q = p" and "k \<notin> exited s" and "\<not> blocked k (klog s)" and "length argv = 4"
    and "P = word_of_int (atoi (argv ! 1))" and "n = sint (word_of_int (atoi (argv ! 3)) :: u32)"
    and "reg_entry (pid_now tab s) (Some a) p P (computation_ms clk1 clk2 (atoi (argv ! 2))) s = Inr (0, s1)"
  shows "(P < INT_MAX \<longrightarrow>
      (\<exists>s'. userapp_main True tab hz k (\<lambda>_. undisturbed) clock (Some a) clk1 clk2 p argv s =
          Inr (Done (0, nat n, nat n * (nat (atoi (argv ! 2)) * 10000000), s'))
        \<and> find_by_pid s' p = Inr None))
    \<and> (INT_MAX \<le> P \<longrightarrow> 2 \<le> n \<longrightarrow> clock 2 < clock 1 + period_ticks hz P \<longrightarrow>
      (\<exists>y. userapp_main True tab hz k (\<lambda>_. undisturbed) clock (Some a) clk1 clk2 p argv s = Inr (Asleep y)
        \<and> (\<forall>m. blocked k (klog ((undisturbed ^^ m) y)))))"
proof -
  let ?ct = "atoi (argv ! 2)"
  have inv: "mp2_inv s" using assms(1) by (rule reachable_inv)
  have alive: "task_alive tab p k s"
    using inv reachable_from [OF assms(1)] assms(4-6) unfolding task_alive_def by blast
  have empty: "slab s a = None" "own s p = []"
    using klist_dom [OF inv] assms(2) by (simp_all add: own_def)
  note reg = assms(11) [unfolded assms(9)]
  have s1: "enrolled tab p k s1" "\<not> blocked k (klog s1)" "HEAD s1 = [a]"
    "slab s1 a = Some (new_task (pid_now tab s) p P (computation_ms clk1 clk2 ?ct))"
    using enrolled_reg [OF alive empty assms(7,11)] assms(2) by simp_all
  have al: "alone tab p k P s1" using s1 by (simp add: alone_def new_task_def)
  note round = alone_round [OF al]
  have few: "length (HEAD (undisturbed s1)) \<le> 169" using round(4) s1(3) by simp
  have main: "userapp_main True tab hz k (\<lambda>_. undisturbed) clock (Some a) clk1 clk2 p argv s =
      jobs_and_leave tab hz k (\<lambda>_. undisturbed) clock p n ?ct (undisturbed s1)"
    using userapp_main_checked(1) [where env = "\<lambda>_. undisturbed" and clock = clock,
        OF assms(8) alive empty assms(7,3) undisturbed_others reg few] assms(10)
    by simp
  show ?thesis
    unfolding main
  proof (intro conjI impI)
    assume P: "P < INT_MAX"
    have "ends_with (\<lambda>_. False)
        (\<lambda>(e, jobs, rounds, s'). e = 0 \<and> jobs = nat n \<and> rounds = nat n * (nat ?ct * 10000000)
          \<and> find_by_pid s' p = Inr None)
        (jobs_and_leave tab hz k (\<lambda>_. undisturbed) clock p n ?ct (undisturbed s1))"
      by (rule jobs_and_leave_ends [where I = "alone tab p k P"])
        (use P round(1) in \<open>auto intro: alone_send_yield alone_send_deregister\<close>)
    then show "\<exists>s'. jobs_and_leave tab hz k (\<lambda>_. undisturbed) clock p n ?ct (undisturbed s1) =
        Inr (Done (0, nat n, nat n * (nat ?ct * 10000000), s')) \<and> find_by_pid s' p = Inr None"
      by (auto simp: ends_with_def)
  next
    assume P: "INT_MAX \<le> P" "2 \<le> n" "clock 2 < clock 1 + period_ticks hz P"
    have "\<not> blocked k (klog (undisturbed s1))" "HEAD (undisturbed s1) = [a]"
      "map_option ts_next_period (slab (undisturbed s1) a) = Some 0"
      using round s1(2-4) by (simp_all add: new_task_def)
    from jobs_and_leave_never [OF round(1) this P]
    show "\<exists>y. jobs_and_leave tab hz k (\<lambda>_. undisturbed) clock p n ?ct (undisturbed s1) = Inr (Asleep y)
        \<and> (\<forall>m. blocked k (klog ((undisturbed ^^ m) y)))" .
  qed
qed

text \<open>The same program with the period 500 and with the period -1.\<close>

definition forever_argv :: "string list" where
  "forever_argv = [''./userapp'', ''-'' @ dec_nat 1, dec_nat 2, dec_nat 3]"

theorem userapp_alone_finishes_witness:
  "(\<exists>s'. userapp_main True sample_tab 100 70 (\<lambda>_. undisturbed) (\<lambda>i. 1000 + 10 * of_nat i) (Some 1) 0 43000 7
      session_argv sample0 = Inr (Done (0, 3, 60000000, s')) \<and> find_by_pid s' 7 = Inr None)
   \<and> (\<exists>y. userapp_main True sample_tab 100 70 (\<lambda>_. undisturbed) (\<lambda>i. 1000 + 10 * of_nat i) (Some 1) 0 43000 7
      forever_argv sample0 = Inr (Asleep y) \<and> (\<forall>m. blocked 70 (klog ((undisturbed ^^ m) y))))"
proof
  have c: "sint (3 :: u32) = 3" "(500 :: u32) < INT_MAX" by (simp_all add: INT_MAX_def)
  show "\<exists>s'. userapp_main True sample_tab 100 70 (\<lambda>_. undisturbed) (\<lambda>i. 1000 + 10 * of_nat i) (Some 1) 0 43000 7
      session_argv sample0 = Inr (Done (0, 3, 60000000, s')) \<and> find_by_pid s' 7 = Inr None"
    using userapp_alone_finishes [OF sample0_reachable session_start(3-9) refl refl session_reg,
        where clock = "\<lambda>i. 1000 + 10 * of_nat i" and hz = 100] c unfolding session_args by simp
  have args: "atoi (forever_argv ! 1) = -1" "atoi (forever_argv ! 2) = 2" "atoi (forever_argv ! 3) = 3"
    "length forever_argv = 4"
    using atoi_minus [of 1] by (simp_all add: forever_argv_def atoi_dec_nat)
  obtain s1 where reg: "reg_entry (pid_now sample_tab sample0) (Some 1) 7 (word_of_int (atoi (forever_argv ! 1)))
      (computation_ms 0 43000 (atoi (forever_argv ! 2))) sample0 = Inr (0, s1)"
    unfolding args session_computation
    by (simp add: reg_entry_def admission_control_def sample_defs cache_alloc_from_def)
  have "INT_MAX \<le> (word_of_int (-1) :: u32)" "(1000 + 10 * of_nat 2 :: u64) < 1000 + 10 * of_nat 1 + period_ticks 100 (word_of_int (-1))"
    by (simp_all add: INT_MAX_def period_ticks_def)
  then show "\<exists>y. userapp_main True sample_tab 100 70 (\<lambda>_. undisturbed) (\<lambda>i. 1000 + 10 * of_nat i) (Some 1) 0 43000 7
      forever_argv sample0 = Inr (Asleep y) \<and> (\<forall>m. blocked 70 (klog ((undisturbed ^^ m) y)))"
    using userapp_alone_finishes [OF sample0_reachable session_start(3-8) args(4) refl refl reg,
        where clock = "\<lambda>i. 1000 + 10 * of_nat i" and hz = 100] c(1) unfolding args by simp
qed

end
