(* ===== verification/MP2_Race.thy ===== *)
theory MP2_Race
  imports MP2_Session
begin

text \<open>
  The dispatcher of \<open>MP2/mp2.c\<close> interleaved with other handlers.  Its critical section ends after
  the selection loop (and the lock macros expand to nothing), so that the thread can be preempted
  between choosing a task and switching to it.  Here the two halves are separate steps, and any
  sequence of handlers may run in between.
\<close>

section \<open>The two halves of a turn\<close>

definition dispatch_pick :: "mp2 \<Rightarrow> addr option kres" where
  "dispatch_pick s = pick_next (slab s) (HEAD s) INT_MAX None"

text \<open>The trace message reads the pid of the chosen task before the switch.\<close>

definition dispatch_switch :: "addr option \<Rightarrow> mp2 \<Rightarrow> mp2 kres" where
  "dispatch_switch next s =
     bindK (case next of None \<Rightarrow> Inr () | Some n \<Rightarrow> bindK (deref (slab s) n) (\<lambda>_. Inr ())) (\<lambda>_.
     bindK
       (case next of
          None \<Rightarrow> Inr s
        | Some n \<Rightarrow>
            if curr_tsk s \<noteq> Some n
            then bindK (case curr_tsk s of None \<Rightarrow> Inr s | Some c \<Rightarrow> set_old_task c s) (set_new_task n)
            else Inr s)
       (\<lambda>s1. Inr (emit Schedule (emit Set_current_interruptible s1))))"

lemma pick_next_dom: "pick_next h xs m nx = Inr (Some n) \<Longrightarrow> (nx = Some n \<Longrightarrow> n \<in> dom h) \<Longrightarrow> n \<in> dom h"
proof (induction xs arbitrary: m nx)
  case (Cons x xs)
  then obtain t where t: "h x = Some t" by (auto simp: kres_simps)
  show ?case
  proof (cases "ts_state t \<noteq> SLEEPING \<and> ts_period t < m")
    case True
    then have "pick_next h xs (ts_period t) (Some x) = Inr (Some n)" using Cons.prems(1) t by (simp add: deref_def)
    then show ?thesis by (rule Cons.IH) (use t in auto)
  next
    case False
    then have "pick_next h xs m nx = Inr (Some n)" using Cons.prems(1) t by (auto simp: deref_def)
    then show ?thesis using Cons.prems(2) by (rule Cons.IH)
  qed
qed simp

text \<open>With nothing in between, the halves are one turn of the dispatcher.\<close>

lemma dispatch_fn_halves: "dispatch_fn s = bindK (dispatch_pick s) (\<lambda>nx. dispatch_switch nx s)"
  unfolding dispatch_fn_def dispatch_pick_def
proof (rule bindK_cong [OF refl])
  fix nx
  assume nx: "pick_next (slab s) (HEAD s) INT_MAX None = Inr nx"
  have "(case nx of None \<Rightarrow> Inr () | Some n \<Rightarrow> bindK (deref (slab s) n) (\<lambda>_. Inr ())) = Inr ()"
    using pick_next_dom [of "slab s" "HEAD s" INT_MAX None] nx by (auto simp: deref_def split: option.splits)
  then show "bindK (case nx of None \<Rightarrow> Inr s
      | Some n \<Rightarrow> if curr_tsk s \<noteq> Some n
          then bindK (case curr_tsk s of None \<Rightarrow> Inr s | Some c \<Rightarrow> set_old_task c s) (set_new_task n) else Inr s)
      (\<lambda>s1. Inr (emit Schedule (emit Set_current_interruptible s1))) = dispatch_switch nx s"
    by (simp add: dispatch_switch_def)
qed

section \<open>Handlers in between\<close>

definition live_trans :: "(u32 \<Rightarrow> ktask option) \<Rightarrow> u32 \<Rightarrow> mp2 \<Rightarrow> mp2_event \<Rightarrow> mp2 \<Rightarrow> bool" where
  "live_trans pid_task USER_HZ s e s' = (mp2_trans pid_task USER_HZ s e s' \<and> live_registration pid_task e s)"

definition live_inv :: "mp2 \<Rightarrow> bool" where
  "live_inv s = (mp2_inv s \<and> tasks_live s)"

interpretation live: safety_system "live_trans tab hz" live_inv live_inv for tab hz
  by unfold_locales (auto simp: live_trans_def live_inv_def intro: mp2_trans_inv mp2_trans_live)

lemma reachable_live_inv: "mp2_reachable tab hz (live_registration tab) s \<Longrightarrow> live_inv s"
  by (simp add: live_inv_def reachable_inv reachable_live)

lemma dispatch_switch_cases:
  assumes "live_inv s"
  shows "if a \<in> set (HEAD s) then \<exists>s'. dispatch_switch (Some a) s = Inr s' \<and> curr_tsk s' = Some a
    else dispatch_switch (Some a) s = Inl UseAfterFree"
proof -
  have inv: "mp2_inv s" and live: "tasks_live s" using assms by (simp_all add: live_inv_def)
  show ?thesis
  proof (cases "a \<in> set (HEAD s)")
    case True
    then obtain t where t: "slab s a = Some t" using klist_dom [OF inv] by auto
    obtain s1 where s1: "(case curr_tsk s of None \<Rightarrow> Inr s | Some c \<Rightarrow> set_old_task c s) = Inr s1"
      "tasks_live s1" "dom (slab s1) = dom (slab s)" using demote_ok [OF inv live] by blast
    then obtain t1 where "slab s1 a = Some t1" using t by auto
    then obtain s2 where s2: "set_new_task a s1 = Inr s2" using set_new_task_ok s1(2) by blast
    then have "curr_tsk s2 = Some a" by (auto elim: set_new_task_cases)
    with True t s1(1) s2 show ?thesis by (simp add: dispatch_switch_def deref_def)
  next
    case False
    then have "slab s a = None" using klist_dom [OF inv] by auto
    with False show ?thesis by (simp add: dispatch_switch_def deref_def)
  qed
qed

text \<open>
  C16: The dispatcher can use a task that is gone.  Between choosing a task and switching to it any
  handlers may run.  If the chosen task is still registered afterwards, the switch succeeds and
  makes it current; if it has been deregistered, the dispatcher reads freed memory.  Without
  anything in between the two halves are exactly one turn of \<open>dispatch_fn\<close>.
\<close>

theorem dispatcher_race:
  assumes "mp2_reachable tab hz (live_registration tab) s" and "dispatch_pick s = Inr (Some a)"
    and "runs (live_trans tab hz) s es s'"
  shows "(a \<in> set (HEAD s') \<longrightarrow> (\<exists>s''. dispatch_switch (Some a) s' = Inr s'' \<and> curr_tsk s'' = Some a))
    \<and> (a \<notin> set (HEAD s') \<longrightarrow> dispatch_switch (Some a) s' = Inl UseAfterFree)
    \<and> dispatch_fn s = dispatch_switch (Some a) s"
proof -
  have "live_inv s'" using assms(3) reachable_live_inv [OF assms(1)] by (rule live.run_keeps)
  from dispatch_switch_cases [OF this, of a] show ?thesis
    using assms(2) dispatch_fn_halves [of s] by (auto split: if_splits)
qed

theorem dispatcher_race_witness:
  "\<exists>r s'. dispatch_pick sample3 = Inr (Some 1) \<and> dereg_entry 7 sample3 = Inr (r, s')
     \<and> dispatch_switch (Some 1) s' = Inl UseAfterFree"
proof -
  have p: "dispatch_pick sample3 = Inr (Some 1)"
    by (simp add: dispatch_pick_def deref_def sample_defs INT_MAX_def)
  obtain r s' where d: "dereg_entry 7 sample3 = Inr (r, s')"
    using dereg_entry_ok [OF reachable_inv [OF sample_live], of 7] by (auto elim: okE)
  have f: "find_by_pid sample3 7 = Inr (Some 1)" by (simp add: find_by_pid_def deref_def sample_defs)
  have gone: "1 \<notin> set (HEAD s')"
    using d f by (auto elim!: dereg_entry_cases simp: sample_defs)
  have "live_trans sample_tab 100 sample3 (Deregister 7) s'"
    using d by (auto simp: live_trans_def intro: mp2_trans.deregister)
  then have "runs (live_trans sample_tab 100) sample3 [Deregister 7] s'" by (rule runs_one)
  from dispatcher_race [OF sample_live p this] p d gone show ?thesis by blast
qed

end
