(* ===== verification/MP2_Old.thy ===== *)
theory MP2_Old
  imports MP2_Proc
begin

text \<open>
  The version of the scheduler module that precedes \<open>MP2/mp2.c\<close>, kept in the repository as
  \<open>MP2/mp2_dump.c\<close>.  It has no books for the admission control and no lock; the state of a task
  is an \<open>unsigned int\<close> holding one of three codes; the period is converted with
  \<open>jiffies_to_msecs\<close>; the first yield returns without calling the scheduler; and deregistration
  does not wake the dispatcher.  Like the newer version it follows \<open>dispatch_kth\<close>, \<open>mycache\<close> and the
  task pointers without a check or a reference.  The functions \<open>findchar\<close> and the parser in \<open>mywrite\<close> are letter for
  letter those of \<open>mp2.c\<close>.  The kernel's \<open>jiffies_to_msecs\<close> is a parameter, and so are, as for
  \<open>mp2.c\<close>, the clock, the allocator and the pid table.

  The relation between the versions is the function \<open>forget\<close>, which drops the books and encodes
  the states of the tasks.  Every handler of the older version is, through \<open>forget\<close>, the handler of
  the newer one up to the differences named above, and its invariant is inherited along the way.
\<close>

section \<open>Data\<close>

definition old_READY :: u32 where "old_READY = 1"
definition old_RUNNING :: u32 where "old_RUNNING = 2"
definition old_SLEEPING :: u32 where "old_SLEEPING = 0"

lemmas old_codes = old_READY_def old_RUNNING_def old_SLEEPING_def

record old_task_struct =
  os_tsk :: "ktask option"
  os_tm :: "u64 option"
  os_period :: u32
  os_computation :: u32
  os_pid :: u32
  os_state :: u32
  os_next_period :: u64

record mp2_old =
  old_HEAD :: "addr list"
  old_slab :: "addr \<rightharpoonup> old_task_struct"
  old_curr_tsk :: "addr option"
  old_mycache :: bool
  old_dispatch_kth :: kth_ptr
  old_exited :: "ktask set"
  old_klog :: "kcall list"

definition old_emit :: "kcall \<Rightarrow> mp2_old \<Rightarrow> mp2_old" where
  "old_emit c s = s\<lparr>old_klog := old_klog s @ [c]\<rparr>"

definition old_set_node :: "addr \<Rightarrow> old_task_struct \<Rightarrow> mp2_old \<Rightarrow> mp2_old" where
  "old_set_node a t s = s\<lparr>old_slab := (old_slab s)(a \<mapsto> t)\<rparr>"

definition old_clear_curr :: "addr \<Rightarrow> mp2_old \<Rightarrow> mp2_old" where
  "old_clear_curr a s = (if old_curr_tsk s = Some a then s\<lparr>old_curr_tsk := None\<rparr> else s)"

text \<open>Calls that follow the pointer to the dispatcher thread, the task of a process or the slab cache.\<close>

definition old_on_dispatch_kth :: "kcall \<Rightarrow> mp2_old \<Rightarrow> mp2_old kres" where
  "old_on_dispatch_kth c s =
     (case old_dispatch_kth s of
        Kth_null \<Rightarrow> Inl NullDeref
      | Kth_err \<Rightarrow> Inl ErrPtrDeref
      | Kth_thread \<Rightarrow> Inr (old_emit c s))"

definition old_wake_dispatch :: "mp2_old \<Rightarrow> mp2_old kres" where
  "old_wake_dispatch s = old_on_dispatch_kth Wake_up_dispatch s"

definition old_task_ref :: "mp2_old \<Rightarrow> ktask option \<Rightarrow> ktask kres" where
  "old_task_ref s p = bindK (nonnull p) (\<lambda>k. if k \<in> old_exited s then Inl UseAfterFree else Inr k)"

definition old_cache_alloc_from :: "mp2_old \<Rightarrow> addr option \<Rightarrow> addr option kres" where
  "old_cache_alloc_from s cache_alloc = (if old_mycache s then Inr cache_alloc else Inl NullDeref)"

section \<open>The proc file\<close>

text \<open>
  \<open>sprintf(buf + off, text)\<close> into a buffer of known contents: the text and its NUL replace the
  bytes from \<open>off\<close> on, and must fit.
\<close>

definition sprintf_at :: "char list \<Rightarrow> nat \<Rightarrow> string \<Rightarrow> char list kres" where
  "sprintf_at buf off txt =
     (if length buf < off + length txt + 1 then Inl OutOfBounds
      else Inr (take off buf @ txt @ NUL # drop (off + length txt + 1) buf))"

text \<open>The loop of \<open>myread\<close> over the list, with \<open>off\<close> and \<open>size\<close>.\<close>

fun old_print_pids ::
  "(addr \<rightharpoonup> old_task_struct) \<Rightarrow> char list \<Rightarrow> nat \<Rightarrow> nat \<Rightarrow> addr list \<Rightarrow> (char list \<times> nat \<times> nat) kres" where
  "old_print_pids h tmpbuf off sz [] = Inr (tmpbuf, off, sz)"
| "old_print_pids h tmpbuf off sz (tmp # rest) =
     bindK (deref h tmp) (\<lambda>t.
     bindK (sprintf_at tmpbuf off (fmt_d (os_pid t) @ [newline])) (\<lambda>tmpbuf'.
       old_print_pids h tmpbuf' (strlen tmpbuf') (sz + 1) rest))"

text \<open>
  The arguments \<open>tmpbuf\<close> and \<open>buf\<close> are the blocks \<open>kmalloc\<close> returned, with whatever bytes they hold;
  \<open>memcpy(buf + strlen(buf), tmpbuf, off + 1)\<close> copies \<open>off + 1\<close> bytes of the first behind the text of
  the second.
\<close>

definition old_myread ::
  "char list option \<Rightarrow> char list option \<Rightarrow> nat \<Rightarrow> mp2_old \<Rightarrow> (nat \<times> string \<times> nat) kres" where
  "old_myread tmpbuf buf offset s =
     (if 0 < offset then Inr (0, [], offset)
      else bindK (nonnull tmpbuf) (\<lambda>tmpbuf0.
        bindK (nonnull buf) (\<lambda>buf0.
        bindK (if list_empty (old_HEAD s) then Inr (tmpbuf0, 0, 0)
               else old_print_pids (old_slab s) tmpbuf0 0 0 (old_HEAD s)) (\<lambda>(tmpbuf1, off, sz).
        bindK (sprintf_at buf0 0 (fmt_d (of_nat sz) @ [newline])) (\<lambda>buf1.
          let total_len = strlen buf1 + off
          in if length buf1 < total_len + 1 \<or> length tmpbuf1 < off + 1 then Inl OutOfBounds
             else let buf2 = take (strlen buf1) buf1 @ take (off + 1) tmpbuf1 @ drop (total_len + 1) buf1
                  in Inr (total_len + 1, take (total_len + 1) buf2, offset + total_len + 1))))))"

section \<open>Operations\<close>

definition old_tm_callback :: "addr \<Rightarrow> mp2_old \<Rightarrow> mp2_old kres" where
  "old_tm_callback data s =
     bindK (deref (old_slab s) data) (\<lambda>tsk.
       old_wake_dispatch
         (if os_state tsk = old_SLEEPING then old_set_node data (tsk\<lparr>os_state := old_READY\<rparr>) s else s))"

definition old_freeone :: "addr \<Rightarrow> mp2_old \<Rightarrow> mp2_old kres" where
  "old_freeone itr s =
     bindK (deref (old_slab s) itr) (\<lambda>_.
       Inr (s\<lparr>old_HEAD := list_del itr (old_HEAD s), old_slab := (old_slab s)(itr := None)\<rparr>))"

text \<open>The loop of \<open>admission_control\<close> visits every node and does nothing with it.\<close>

fun old_visit :: "(addr \<rightharpoonup> old_task_struct) \<Rightarrow> addr list \<Rightarrow> unit kres" where
  "old_visit h [] = Inr ()"
| "old_visit h (tmp # rest) = bindK (deref h tmp) (\<lambda>_. old_visit h rest)"

definition old_admission_control :: "u32 \<Rightarrow> u32 \<Rightarrow> u32 \<Rightarrow> mp2_old \<Rightarrow> u32 kres" where
  "old_admission_control period computation pid s =
     bindK (if list_empty (old_HEAD s) then Inr () else old_visit (old_slab s) (old_HEAD s)) (\<lambda>_. Inr 0)"

definition old_reg_entry ::
  "(u32 \<Rightarrow> ktask option) \<Rightarrow> addr option \<Rightarrow> u32 \<Rightarrow> u32 \<Rightarrow> u32 \<Rightarrow> mp2_old \<Rightarrow> (u32 \<times> mp2_old) kres" where
  "old_reg_entry pid_task cache_alloc pid period computation s =
     bindK (old_admission_control period computation pid s) (\<lambda>r.
       if r \<noteq> 0 then Inr (1, s)
       else bindK (old_cache_alloc_from s cache_alloc) (\<lambda>tsk.
         bindK (nonnull tsk) (\<lambda>a.
         Inr (0, s\<lparr>old_HEAD := list_add_tail a (old_HEAD s),
           old_slab := (old_slab s)(a \<mapsto> \<lparr>os_tsk = mp2_find_task_by_pid pid_task pid, os_tm = None,
             os_period = period, os_computation = computation, os_pid = pid, os_state = old_SLEEPING,
             os_next_period = 0\<rparr>)\<rparr>))))"

definition old_find_by_pid :: "mp2_old \<Rightarrow> u32 \<Rightarrow> addr option kres" where
  "old_find_by_pid s pid = find_entry (old_slab s) (\<lambda>t. os_pid t = pid) (old_HEAD s)"

definition old_set_task_sleep :: "u32 \<Rightarrow> mp2_old \<Rightarrow> (u32 \<times> mp2_old) kres" where
  "old_set_task_sleep pid s =
     bindK (old_find_by_pid s pid) (\<lambda>p. case p of
       None \<Rightarrow> Inr (0, s)
     | Some a \<Rightarrow>
         let s1 = old_clear_curr a s in
         bindK (deref (old_slab s1) a) (\<lambda>t.
         bindK (old_task_ref s1 (os_tsk t)) (\<lambda>k.
           Inr (1, old_emit (Set_task_uninterruptible k)
                    (old_set_node a (t\<lparr>os_state := old_SLEEPING\<rparr>) s1)))))"

definition old_mod_timer :: "addr \<Rightarrow> u64 \<Rightarrow> mp2_old \<Rightarrow> mp2_old kres" where
  "old_mod_timer a e s =
     bindK (deref (old_slab s) a) (\<lambda>t. Inr (old_set_node a (t\<lparr>os_tm := Some e\<rparr>) s))"

text \<open>\<open>jiffies_to_msecs(period)\<close>: the argument is an \<open>unsigned long\<close>, the result an \<open>unsigned int\<close>.\<close>

definition old_ticks :: "(u64 \<Rightarrow> u32) \<Rightarrow> u32 \<Rightarrow> u64" where
  "old_ticks jiffies_to_msecs period = ucast (jiffies_to_msecs (ucast period))"

definition old_yield_entry :: "(u64 \<Rightarrow> u32) \<Rightarrow> u64 \<Rightarrow> u32 \<Rightarrow> mp2_old \<Rightarrow> mp2_old kres" where
  "old_yield_entry jiffies_to_msecs jiffies pid s =
     bindK (case old_curr_tsk s of None \<Rightarrow> Inr () | Some c \<Rightarrow> bindK (deref (old_slab s) c) (\<lambda>_. Inr ())) (\<lambda>_.
     bindK (old_find_by_pid s pid) (\<lambda>p.
     bindK (nonnull p) (\<lambda>a.
     bindK (deref (old_slab s) a) (\<lambda>t.
       if os_next_period t = 0 then
         old_wake_dispatch (old_set_node a
           (t\<lparr>os_next_period := jiffies + old_ticks jiffies_to_msecs (os_period t), os_state := old_READY\<rparr>) s)
       else
         bindK (if jiffies < os_next_period t
                then bindK (old_set_task_sleep pid s) (\<lambda>(ret, s1). old_mod_timer a (os_next_period t) s1)
                else Inr s) (\<lambda>s2.
         bindK (deref (old_slab s2) a) (\<lambda>t2.
         bindK (old_wake_dispatch (old_set_node a
             (t2\<lparr>os_next_period := os_next_period t2 + old_ticks jiffies_to_msecs (os_period t2)\<rparr>) s2)) (\<lambda>s3.
           Inr (old_emit Schedule s3))))))))"

definition old_dereg_entry :: "u32 \<Rightarrow> mp2_old \<Rightarrow> (u32 \<times> mp2_old) kres" where
  "old_dereg_entry pid s =
     bindK (old_find_by_pid s pid) (\<lambda>p. case p of
       None \<Rightarrow> Inr (1, s)
     | Some a \<Rightarrow> bindK (old_freeone a (old_clear_curr a s)) (\<lambda>s1. Inr (0, s1)))"

definition old_mywrite ::
  "(u32 \<Rightarrow> ktask option) \<Rightarrow> (u64 \<Rightarrow> u32) \<Rightarrow> u64 \<Rightarrow> addr option \<Rightarrow> string \<Rightarrow> mp2_old \<Rightarrow> (nat \<times> mp2_old) kres" where
  "old_mywrite pid_task jiffies_to_msecs jiffies cache_alloc userbuff s =
     (let len = length userbuff; buff = userbuff @ [NUL]
      in bindK (parse_request buff) (\<lambda>(pid, period, computation).
         bindK
           (if buff ! 0 = CHR ''R'' then
              bindK (old_reg_entry pid_task cache_alloc pid period computation s) (\<lambda>(r, s1). Inr s1)
            else if buff ! 0 = CHR ''Y'' then old_yield_entry jiffies_to_msecs jiffies pid s
            else if buff ! 0 = CHR ''D'' then bindK (old_dereg_entry pid s) (\<lambda>(r, s1). Inr s1)
            else Inr s)
           (\<lambda>s'. Inr (len, s'))))"

section \<open>The dispatcher\<close>

definition old_set_new_task :: "addr \<Rightarrow> mp2_old \<Rightarrow> mp2_old kres" where
  "old_set_new_task a s =
     bindK (deref (old_slab s) a) (\<lambda>t.
     bindK (old_task_ref s (os_tsk t)) (\<lambda>k.
       let s1 = old_emit (Wake_up_process k) s;
           s2 = old_set_node a (t\<lparr>os_state := old_RUNNING\<rparr>) s1;
           s3 = old_emit (Sched_setscheduler k SCHED_FIFO 99) s2
       in Inr (s3\<lparr>old_curr_tsk := Some a\<rparr>)))"

definition old_set_old_task :: "addr \<Rightarrow> mp2_old \<Rightarrow> mp2_old kres" where
  "old_set_old_task a s =
     bindK (deref (old_slab s) a) (\<lambda>t.
     bindK (old_task_ref s (os_tsk t)) (\<lambda>k.
       let s1 = (if os_state t = old_RUNNING then old_set_node a (t\<lparr>os_state := old_READY\<rparr>) s else s)
       in Inr (old_emit (Sched_setscheduler k SCHED_NORMAL 0) s1)))"

fun old_pick_next :: "(addr \<rightharpoonup> old_task_struct) \<Rightarrow> addr list \<Rightarrow> u32 \<Rightarrow> addr option \<Rightarrow> addr option kres"
  where
  "old_pick_next h [] min_period next = Inr next"
| "old_pick_next h (itr # rest) min_period next =
     bindK (deref h itr) (\<lambda>t.
       if os_state t \<noteq> old_SLEEPING \<and> os_period t < min_period
       then old_pick_next h rest (os_period t) (Some itr)
       else old_pick_next h rest min_period next)"

definition old_dispatch_fn :: "mp2_old \<Rightarrow> mp2_old kres" where
  "old_dispatch_fn s =
     bindK (if list_empty (old_HEAD s) then Inr None
            else old_pick_next (old_slab s) (old_HEAD s) INT_MAX None) (\<lambda>next.
     bindK
       (case next of
          None \<Rightarrow> Inr s
        | Some n \<Rightarrow>
            if old_curr_tsk s \<noteq> Some n
            then bindK (case old_curr_tsk s of None \<Rightarrow> Inr s | Some c \<Rightarrow> old_set_old_task c s)
                   (old_set_new_task n)
            else Inr s)
       (\<lambda>s1. Inr (old_emit Schedule (old_emit Set_current_interruptible s1))))"

section \<open>Loading and unloading\<close>

definition old_init_slab :: "bool \<Rightarrow> mp2_old \<Rightarrow> mp2_old" where
  "old_init_slab cache_created s = old_emit Kmem_cache_create (s\<lparr>old_mycache := cache_created\<rparr>)"

definition old_init_mykernel :: "kth_ptr \<Rightarrow> mp2_old \<Rightarrow> mp2_old kres" where
  "old_init_mykernel kth s =
     (let s1 = old_emit Kthread_create (s\<lparr>old_dispatch_kth := kth\<rparr>)
      in if old_dispatch_kth s1 = Kth_null then Inr s1 else old_wake_dispatch s1)"

definition old_mp2_init :: "bool \<Rightarrow> bool \<Rightarrow> kth_ptr \<Rightarrow> (errno + mp2_old) kres" where
  "old_mp2_init file_created cache_created kth =
     (if \<not> file_created then Inr (Inl ENOMEM)
      else mapK Inr (old_init_mykernel kth (old_init_slab cache_created
        \<lparr>old_HEAD = [], old_slab = Map.empty, old_curr_tsk = None, old_mycache = False,
         old_dispatch_kth = Kth_null, old_exited = {}, old_klog = [Proc_mkdir, Proc_create]\<rparr>)))"

fun old_free_nodes :: "addr list \<Rightarrow> mp2_old \<Rightarrow> mp2_old kres" where
  "old_free_nodes [] s = Inr s"
| "old_free_nodes (itr # rest) s = bindK (old_freeone itr s) (old_free_nodes rest)"

definition old_freeall :: "mp2_old \<Rightarrow> mp2_old kres" where
  "old_freeall s = old_free_nodes (old_HEAD s) (s\<lparr>old_curr_tsk := None\<rparr>)"

definition old_mp2_exit :: "mp2_old \<Rightarrow> mp2_old kres" where
  "old_mp2_exit s =
     bindK (old_freeall (old_emit Proc_remove_dir (old_emit Proc_remove_file s))) (\<lambda>s1.
     bindK (old_on_dispatch_kth Kthread_stop s1) (\<lambda>s2.
       Inr (if old_mycache s2 then old_emit Kmem_cache_destroy s2 else s2)))"

end
