(* ===== verification/MP2_Old_Correct.thy ===== *)
theory MP2_Old_Correct
  imports MP2_Old KTrans
begin

text \<open>
  The older scheduler version against the newer one.  The homomorphism laws of \<open>forget\<close> (collection
  \<open>forget_hom\<close>) carry every operation of \<open>MP2/mp2_dump.c\<close> to the operation of the same name of
  \<open>MP2/mp2.c\<close>; from the equations follow the equivalence of the two versions, the typing and
  well-formedness invariant of the older one, and the behaviours in which it differs.
\<close>

section \<open>The newer state seen by the older version\<close>

named_theorems forget_hom \<open>updates of the newer state carried to the older one\<close>

fun code_of :: "mp2_task_state \<Rightarrow> u32" where
  "code_of SLEEPING = old_SLEEPING"
| "code_of READY = old_READY"
| "code_of RUNNING = old_RUNNING"

definition old_task :: "mp2_task_struct \<Rightarrow> old_task_struct" where
  "old_task t = \<lparr>os_tsk = ts_tsk t, os_tm = ts_tm t, os_period = ts_period t,
     os_computation = ts_computation t, os_pid = ts_pid t, os_state = code_of (ts_state t),
     os_next_period = ts_next_period t\<rparr>"

definition forget :: "mp2 \<Rightarrow> mp2_old" where
  "forget s = \<lparr>old_HEAD = HEAD s, old_slab = (\<lambda>a. map_option old_task (slab s a)),
     old_curr_tsk = curr_tsk s, old_mycache = mycache s, old_dispatch_kth = dispatch_kth s,
     old_exited = exited s, old_klog = klog s\<rparr>"

lemma code_of_eq [simp]:
  "code_of x = old_SLEEPING \<longleftrightarrow> x = SLEEPING" "code_of x = old_READY \<longleftrightarrow> x = READY"
  "code_of x = old_RUNNING \<longleftrightarrow> x = RUNNING"
  by (cases x; simp add: old_codes)+

lemma old_codes_distinct [simp]:
  "old_SLEEPING \<noteq> old_READY" "old_READY \<noteq> old_SLEEPING" "old_SLEEPING \<noteq> old_RUNNING"
  "old_RUNNING \<noteq> old_SLEEPING" "old_READY \<noteq> old_RUNNING" "old_RUNNING \<noteq> old_READY"
  by (simp_all add: old_codes)

lemma old_task_sel [simp]:
  "os_tsk (old_task t) = ts_tsk t" "os_tm (old_task t) = ts_tm t" "os_period (old_task t) = ts_period t"
  "os_computation (old_task t) = ts_computation t" "os_pid (old_task t) = ts_pid t"
  "os_state (old_task t) = code_of (ts_state t)" "os_next_period (old_task t) = ts_next_period t"
  by (simp_all add: old_task_def)

lemma forget_sel [simp]:
  "old_HEAD (forget s) = HEAD s" "old_slab (forget s) = (\<lambda>a. map_option old_task (slab s a))"
  "old_curr_tsk (forget s) = curr_tsk s" "old_mycache (forget s) = mycache s"
  "old_dispatch_kth (forget s) = dispatch_kth s" "old_exited (forget s) = exited s" "old_klog (forget s) = klog s"
  by (simp_all add: forget_def)

lemma old_task_upd [forget_hom]:
  "(old_task t)\<lparr>os_state := old_SLEEPING\<rparr> = old_task (t\<lparr>ts_state := SLEEPING\<rparr>)"
  "(old_task t)\<lparr>os_state := old_READY\<rparr> = old_task (t\<lparr>ts_state := READY\<rparr>)"
  "(old_task t)\<lparr>os_state := old_RUNNING\<rparr> = old_task (t\<lparr>ts_state := RUNNING\<rparr>)"
  "(old_task t)\<lparr>os_tm := e\<rparr> = old_task (t\<lparr>ts_tm := e\<rparr>)"
  "(old_task t)\<lparr>os_next_period := j\<rparr> = old_task (t\<lparr>ts_next_period := j\<rparr>)"
  "(old_task t)\<lparr>os_state := old_READY, os_next_period := j\<rparr> = old_task (t\<lparr>ts_state := READY, ts_next_period := j\<rparr>)"
  by (simp_all add: old_task_def)

lemma forget_upd [forget_hom]:
  "old_emit c (forget s) = forget (emit c s)"
  "old_set_node a (old_task t) (forget s) = forget (set_node a t s)"
  "old_clear_curr a (forget s) = forget (clear_curr a s)"
  "(forget s)\<lparr>old_curr_tsk := p\<rparr> = forget (s\<lparr>curr_tsk := p\<rparr>)"
  "(forget s)\<lparr>old_mycache := b\<rparr> = forget (s\<lparr>mycache := b\<rparr>)"
  "(forget s)\<lparr>old_dispatch_kth := q\<rparr> = forget (s\<lparr>dispatch_kth := q\<rparr>)"
  "(forget s)\<lparr>old_exited := x\<rparr> = forget (s\<lparr>exited := x\<rparr>)"
  "(forget s)\<lparr>old_HEAD := list_del a (HEAD s), old_slab := (\<lambda>b. map_option old_task (slab s b))(a := None)\<rparr> =
     forget (unlink_task a s)"
  "(forget s)\<lparr>old_HEAD := list_add_tail a (HEAD s),
     old_slab := (\<lambda>b. map_option old_task (slab s b))(a \<mapsto> old_task t)\<rparr> = forget (link_task a t s)"
  by (auto simp: forget_def old_emit_def emit_def old_set_node_def set_node_def old_clear_curr_def
      clear_curr_def unlink_task_def link_task_def fun_eq_iff)

lemma forget_books [simp]: "forget (s\<lparr>numerator := n, denominator := d\<rparr>) = forget s"
  by (simp add: forget_def)

section \<open>One equation per operation\<close>

lemma old_on_dispatch_kth_eq: "old_on_dispatch_kth c (forget s) = mapK forget (on_dispatch_kth c s)"
  by (simp add: old_on_dispatch_kth_def on_dispatch_kth_def forget_hom split: kth_ptr.split)

lemma old_wake_dispatch_eq [simp]: "old_wake_dispatch (forget s) = mapK forget (wake_dispatch s)"
  by (simp add: old_wake_dispatch_def wake_dispatch_def old_on_dispatch_kth_eq)

lemma old_task_ref_eq [simp]: "old_task_ref (forget s) p = task_ref s p"
  by (simp add: old_task_ref_def task_ref_def)

lemma old_cache_alloc_from_eq [simp]: "old_cache_alloc_from (forget s) al = cache_alloc_from s al"
  by (simp add: old_cache_alloc_from_def cache_alloc_from_def)

lemma old_deref [simp]: "deref (old_slab (forget s)) a = mapK old_task (deref (slab s) a)"
  by (simp add: deref_map)

lemma old_deref_raw [simp]: "deref (\<lambda>b. map_option old_task (h b)) a = mapK old_task (deref h a)"
  by (rule deref_map)

lemma old_tm_callback_eq: "old_tm_callback a (forget s) = mapK forget (mp2_tm_callback a s)"
  by (auto simp: old_tm_callback_def mp2_tm_callback_def forget_hom intro!: bindK_cong)

lemma old_freeone_eq: "old_freeone a (forget s) = mapK forget (freeone a s)"
  by (simp add: old_freeone_def freeone_def forget_hom)

lemma find_entry_map:
  "find_entry (\<lambda>b. map_option f (h b)) P xs = find_entry h (\<lambda>t. P (f t)) xs"
  by (induction xs) (auto simp: deref_map intro: bindK_cong)

lemma old_find_eq: "old_find_by_pid (forget s) p = find_by_pid s p"
  by (simp add: old_find_by_pid_def find_by_pid_def find_entry_map)

lemma old_set_task_sleep_eq:
  "old_set_task_sleep p (forget s) = mapK (\<lambda>(r, s'). (r, forget s')) (set_task_sleep p s)"
  by (auto simp: old_set_task_sleep_def set_task_sleep_def old_find_eq forget_hom Let_def
      intro!: bindK_cong split: option.splits)

lemma old_mod_timer_eq: "old_mod_timer a e (forget s) = mapK forget (mod_timer a e s)"
  by (simp add: old_mod_timer_def mod_timer_def forget_hom)

lemma old_dereg_entry_eq:
  assumes "dispatch_kth s = Kth_thread"
  shows "bindK (old_dereg_entry p (forget s))
     (\<lambda>(r, s'). Inr (r, if r = 0 then old_emit Wake_up_dispatch s' else s')) =
   mapK (\<lambda>(r, s'). (r, forget s')) (dereg_entry p s)"
  using assms
  by (auto simp: old_dereg_entry_def dereg_entry_def old_find_eq forget_hom Let_def bindK_assoc
      old_freeone_eq freeone_def case_prod_unfold intro!: bindK_cong split: option.splits)

lemma old_set_new_task_eq: "old_set_new_task a (forget s) = mapK forget (set_new_task a s)"
  by (simp add: old_set_new_task_def set_new_task_def forget_hom Let_def)

lemma old_set_old_task_eq: "old_set_old_task a (forget s) = mapK forget (set_old_task a s)"
  by (auto simp: old_set_old_task_def set_old_task_def forget_hom Let_def intro!: bindK_cong)

lemma old_pick_next_eq:
  "old_pick_next (\<lambda>b. map_option old_task (h b)) xs m nx = pick_next h xs m nx"
  by (induction xs arbitrary: m nx) (auto intro!: bindK_cong)

lemma old_dispatch_fn_eq: "old_dispatch_fn (forget s) = mapK forget (dispatch_fn s)"
proof -
  have pick: "(if list_empty (HEAD s) then Inr None
      else old_pick_next (old_slab (forget s)) (HEAD s) INT_MAX None) = pick_next (slab s) (HEAD s) INT_MAX None"
    by (simp add: list_empty_def old_pick_next_eq)
  have demote: "(case curr_tsk s of None \<Rightarrow> Inr (forget s) | Some c \<Rightarrow> old_set_old_task c (forget s)) =
      mapK forget (case curr_tsk s of None \<Rightarrow> Inr s | Some c \<Rightarrow> set_old_task c s)"
    by (simp add: old_set_old_task_eq split: option.splits)
  show ?thesis
    unfolding old_dispatch_fn_def dispatch_fn_def forget_sel(1,3) pick demote
    by (auto simp: forget_hom old_set_new_task_eq bindK_assoc intro!: bindK_cong split: option.splits)
qed

lemma old_free_nodes_eq: "old_free_nodes xs (forget s) = mapK forget (free_nodes xs s)"
  by (induction xs arbitrary: s) (auto simp: old_freeone_eq intro: bindK_cong)

lemma old_mp2_exit_eq: "old_mp2_exit (forget s) = mapK forget (mp2_exit s)"
  by (auto simp: old_mp2_exit_def mp2_exit_def old_freeall_def freeall_def forget_hom old_free_nodes_eq
      old_on_dispatch_kth_eq bindK_assoc intro!: bindK_cong)

lemma old_mp2_init_eq: "old_mp2_init f c k = mapK (map_sum id forget) (mp2_init f c k)"
  by (cases k) (simp_all add: old_mp2_init_def mp2_init_def old_init_mykernel_def init_mykernel_def old_init_slab_def
      init_slab_def Let_def old_wake_dispatch_def wake_dispatch_def old_on_dispatch_kth_def on_dispatch_kth_def
      old_emit_def emit_def forget_def)

lemma old_visit_eq: "set xs \<subseteq> dom h \<Longrightarrow> old_visit h xs = Inr ()"
  by (induction xs) (auto simp: deref_def)

text \<open>With its list in order the older version links the new task whatever its load.\<close>

lemma old_reg_entry_eq:
  assumes "klist_inv (HEAD s) (slab s)"
  shows "old_reg_entry tab al p P C (forget s) =
    bindK (cache_alloc_from s al) (\<lambda>x. bindK (nonnull x) (\<lambda>a. Inr (0, forget (link_task a (new_task tab p P C) s))))"
proof -
  have "old_visit (old_slab (forget s)) (HEAD s) = Inr ()"
    using assms klist_inv_in [OF assms] by (intro old_visit_eq) (auto simp: dom_def)
  then have "old_admission_control P C p (forget s) = Inr 0"
    by (simp add: old_admission_control_def)
  moreover have "\<lparr>os_tsk = mp2_find_task_by_pid tab p, os_tm = None, os_period = P, os_computation = C,
      os_pid = p, os_state = old_SLEEPING, os_next_period = 0\<rparr> = old_task (new_task tab p P C)"
    by (simp add: old_task_def new_task_def)
  ultimately show ?thesis
    by (simp add: old_reg_entry_def forget_hom)
qed

section \<open>Yields\<close>

text \<open>
  What the yields of the two versions have in common: the conversion of the period and the calls
  that end the activation are parameters.
\<close>

definition yield_with :: "(u32 \<Rightarrow> u64) \<Rightarrow> (mp2 \<Rightarrow> mp2) \<Rightarrow> u64 \<Rightarrow> u32 \<Rightarrow> mp2 \<Rightarrow> mp2 kres" where
  "yield_with ticks fin j p s =
     bindK (trace_curr s) (\<lambda>_.
     bindK (find_by_pid s p) (\<lambda>q.
     bindK (nonnull q) (\<lambda>a.
     bindK (deref (slab s) a) (\<lambda>t.
       if ts_next_period t = 0 then
         bindK (wake_dispatch (set_node a
           (t\<lparr>ts_next_period := j + ticks (ts_period t), ts_state := READY\<rparr>) s)) (\<lambda>s3. Inr (fin s3))
       else
         bindK (if j < ts_next_period t
                then bindK (set_task_sleep p s) (\<lambda>(ret, s1). mod_timer a (ts_next_period t) s1)
                else Inr s) (\<lambda>s2.
         bindK (deref (slab s2) a) (\<lambda>t2.
         bindK (wake_dispatch (set_node a
             (t2\<lparr>ts_next_period := ts_next_period t2 + ticks (ts_period t2)\<rparr>) s2)) (\<lambda>s3.
           Inr (emit Schedule s3))))))))"

lemma yield_entry_with: "yield_entry hz j p s = yield_with (period_ticks hz) (emit Schedule) j p s"
  by (auto simp: yield_entry_def yield_with_def add_period_def bindK_assoc intro!: bindK_cong)

lemma old_yield_with: "old_yield_entry j2m j p (forget s) = mapK forget (yield_with (old_ticks j2m) id j p s)"
proof -
  have trace: "(case curr_tsk s of None \<Rightarrow> Inr () | Some c \<Rightarrow> bindK (deref (old_slab (forget s)) c) (\<lambda>_. Inr ())) =
      trace_curr s"
    by (auto simp: trace_curr_def intro!: bindK_cong split: option.splits)
  have upd: "(old_task t)\<lparr>os_next_period := i, os_state := old_READY\<rparr> =
      old_task (t\<lparr>ts_next_period := i, ts_state := READY\<rparr>)" for t i
    by (simp add: old_task_def)
  have sleep: "bindK (old_set_task_sleep p (forget s)) (\<lambda>(ret, s1). old_mod_timer a e s1) =
      mapK forget (bindK (set_task_sleep p s) (\<lambda>(ret, s1). mod_timer a e s1))" for a e
    by (auto simp: old_set_task_sleep_eq old_mod_timer_eq case_prod_unfold intro!: bindK_cong)
  show ?thesis
    unfolding old_yield_entry_def yield_with_def forget_sel(3) trace old_find_eq
    by (auto simp: upd sleep forget_hom bindK_assoc mapK_def intro!: bindK_cong)
qed

lemma yield_with_inv:
  assumes inv: "mp2_inv s" and y: "yield_with ticks fin j p s = Inr s'"
    and fin: "\<And>x. mp2_inv x \<Longrightarrow> mp2_inv (fin x)"
  shows "mp2_inv s'"
proof -
  obtain a t where a: "find_by_pid s p = Inr (Some a)" and t: "slab s a = Some t"
    using y by (auto simp: yield_with_def kres_simps)
  show ?thesis
  proof (cases "ts_next_period t = 0")
    case True
    have "mp2_inv (set_node a (t\<lparr>ts_next_period := j + ticks (ts_period t), ts_state := READY\<rparr>) s)"
      using inv t by (rule mp2_inv_set_node) simp_all
    with True y a t fin show ?thesis by (auto simp: yield_with_def kres_simps)
  next
    case False
    then obtain s2 t2 where s2: "(if j < ts_next_period t
          then bindK (set_task_sleep p s) (\<lambda>(ret, s1). mod_timer a (ts_next_period t) s1) else Inr s) = Inr s2"
      and t2: "slab s2 a = Some t2"
      and s': "s' = emit Schedule (emit Wake_up_dispatch (set_node a
          (t2\<lparr>ts_next_period := ts_next_period t2 + ticks (ts_period t2)\<rparr>) s2))"
      using y a t by (auto simp: yield_with_def kres_simps)
    have "mp2_inv s2 \<and> (ts_state t2 = SLEEPING \<longrightarrow> ts_tm t2 \<noteq> None)"
    proof (cases "j < ts_next_period t")
      case True
      with s2 obtain r s1 where "set_task_sleep p s = Inr (r, s1)" "mod_timer a (ts_next_period t) s1 = Inr s2"
        by (auto simp: kres_simps)
      with set_task_sleep_inv [OF inv a] t2 show ?thesis by (auto dest: mod_timer_slab)
    next
      case late: False
      with s2 inv t t2 False show ?thesis by (auto simp: mp2_inv_def)
    qed
    moreover from this have "ts_state t2 = RUNNING \<longrightarrow> curr_tsk s2 = Some a"
      using t2 by (auto simp: mp2_inv_def)
    ultimately have "mp2_inv (set_node a (t2\<lparr>ts_next_period := ts_next_period t2 + ticks (ts_period t2)\<rparr>) s2)"
      using t2 by (intro mp2_inv_set_node) auto
    then show ?thesis by (simp add: s')
  qed
qed

section \<open>The older version as a state machine\<close>

definition old_pid_now :: "(u32 \<Rightarrow> ktask option) \<Rightarrow> mp2_old \<Rightarrow> u32 \<Rightarrow> ktask option" where
  "old_pid_now pid_task s nr =
     (case pid_task nr of None \<Rightarrow> None | Some k \<Rightarrow> if k \<in> old_exited s then None else Some k)"

lemma old_pid_now_eq: "old_pid_now tab (forget s) = pid_now tab s"
  by (simp add: old_pid_now_def pid_now_def fun_eq_iff split: option.split)

inductive old_trans ::
  "(u32 \<Rightarrow> ktask option) \<Rightarrow> (u64 \<Rightarrow> u32) \<Rightarrow> mp2_old \<Rightarrow> mp2_event \<Rightarrow> mp2_old \<Rightarrow> bool" for pid_task j2m where
  register: "old_slab s a = None \<Longrightarrow> old_reg_entry (old_pid_now pid_task s) (Some a) p P C s = Inr (r, s') \<Longrightarrow>
     old_trans pid_task j2m s (Register p P C a) s'"
| yield: "old_yield_entry j2m j p s = Inr s' \<Longrightarrow> old_trans pid_task j2m s (Yield j p) s'"
| deregister: "old_dereg_entry p s = Inr (r, s') \<Longrightarrow> old_trans pid_task j2m s (Deregister p) s'"
| timer: "old_slab s a = Some t \<Longrightarrow> os_tm t = Some e \<Longrightarrow> e \<le> j \<Longrightarrow>
     old_tm_callback a (old_set_node a (t\<lparr>os_tm := None\<rparr>) s) = Inr s' \<Longrightarrow>
     old_trans pid_task j2m s (Timer j a) s'"
| dispatch: "old_dispatch_fn s = Inr s' \<Longrightarrow> old_trans pid_task j2m s Dispatch s'"
| exit: "old_trans pid_task j2m s (Exit k) (s\<lparr>old_exited := insert k (old_exited s)\<rparr>)"

definition old_start :: "mp2_old \<Rightarrow> bool" where
  "old_start s = (\<exists>c k. k \<noteq> Kth_null \<and> old_mp2_init True c k = Inr (Inr s))"

text \<open>A state is well formed when it is what the older version sees of a well-formed newer state.\<close>

definition old_wf :: "mp2_old \<Rightarrow> bool" where
  "old_wf s = (\<exists>m. s = forget m \<and> mp2_inv m)"

lemma old_wf_forget: "mp2_inv m \<Longrightarrow> old_wf (forget m)"
  by (auto simp: old_wf_def)

lemma old_wf_mapK: "mapK forget r = Inr s' \<Longrightarrow> (\<And>m. r = Inr m \<Longrightarrow> mp2_inv m) \<Longrightarrow> old_wf s'"
  by (auto simp: kres_simps intro: old_wf_forget)

lemma old_dereg_wf:
  assumes inv: "mp2_inv m" and d: "old_dereg_entry p (forget m) = Inr (r, s')"
  shows "old_wf s'"
proof -
  obtain q where q: "find_by_pid m p = Inr q"
    using d by (auto simp: old_dereg_entry_def old_find_eq kres_simps)
  show ?thesis
  proof (cases q)
    case None
    with q d inv show ?thesis by (auto simp: old_dereg_entry_def old_find_eq intro: old_wf_forget)
  next
    case (Some a)
    then have "s' = forget (unlink_task a (clear_curr a m))"
      using q d by (auto simp: old_dereg_entry_def old_find_eq forget_hom old_freeone_eq freeone_def kres_simps)
    moreover have "mp2_inv (unlink_task a (clear_curr a m))"
      using inv unfolding mp2_inv_def unlink_task_def
      by (auto simp: klist_inv_def list_del_def split: if_splits)
    ultimately show ?thesis by (simp add: old_wf_forget)
  qed
qed

lemma old_trans_wf: "old_trans tab j2m s e s' \<Longrightarrow> old_wf s \<Longrightarrow> old_wf s'"
proof (induction rule: old_trans.induct)
  case (register s a p P C r s')
  then obtain m where m: "s = forget m" "mp2_inv m" "slab m a = None" by (auto simp: old_wf_def)
  let ?tab = "pid_now tab m"
  have "mp2_inv (link_task a (new_task ?tab p P C) m)"
    using m(2,3) by (rule mp2_inv_link) (simp_all add: new_task_def)
  moreover have "klist_inv (HEAD m) (slab m)" using m(2) by (simp add: mp2_inv_def)
  ultimately show ?case
    using register(2) m(1) old_reg_entry_eq [of m ?tab "Some a" p P C]
    by (auto simp: old_pid_now_eq kres_simps intro: old_wf_forget)
next
  case (yield j p s s')
  then obtain m where m: "s = forget m" "mp2_inv m" by (auto simp: old_wf_def)
  with yield(1) have "mapK forget (yield_with (old_ticks j2m) id j p m) = Inr s'"
    by (simp add: old_yield_with)
  then show ?case by (rule old_wf_mapK) (use yield_with_inv [OF m(2)] in auto)
next
  case (deregister p s r s')
  then show ?case by (auto simp: old_wf_def [of s] intro: old_dereg_wf)
next
  case (timer s a t e j s')
  then obtain m u where m: "s = forget m" "mp2_inv m" "slab m a = Some u" "t = old_task u"
    by (auto simp: old_wf_def)
  then have "mapK forget (mp2_tm_callback a (set_node a (u\<lparr>ts_tm := None\<rparr>) m)) = Inr s'"
    using timer(4) by (simp add: forget_hom old_tm_callback_eq)
  then show ?case using timer_inv [OF m(2,3)] by (rule old_wf_mapK)
next
  case (dispatch s s')
  then show ?case
    by (auto simp: old_wf_def [of s] old_dispatch_fn_eq elim!: old_wf_mapK intro: dispatch_fn_inv)
next
  case (exit s k)
  then obtain m where "s = forget m" "mp2_inv m" by (auto simp: old_wf_def)
  then show ?case by (simp add: forget_hom old_wf_forget)
qed

interpretation older: safety_system "old_trans tab j2m" old_start old_wf for tab j2m
proof unfold_locales
  fix s s' :: mp2_old and e
  show "old_wf s" if st: "old_start s"
  proof -
    obtain c k where k: "k \<noteq> Kth_null" "mapK (map_sum id forget) (mp2_init True c k) = Inr (Inr s)"
      using st by (auto simp: old_start_def old_mp2_init_eq)
    then obtain r where "mp2_init True c k = Inr r" "map_sum id forget r = Inr s" by (auto simp: kres_simps)
    then obtain m where "mp2_init True c k = Inr (Inr m)" "s = forget m" by (cases r) auto
    with k(1) show "old_wf s" using mp2_inv_init by (blast intro: old_wf_forget)
  qed
  show "old_wf s \<Longrightarrow> old_trans tab j2m s e s' \<Longrightarrow> old_wf s'" by (rule old_trans_wf)
qed

lemma old_reachable:
  assumes "old_start s0" and "runs (old_trans tab j2m) s0 es s"
  obtains m where "s = forget m" "mp2_inv m"
  using older.run_inv [OF assms] by (auto simp: old_wf_def)

section \<open>The bytes of a read\<close>

lemma sprintf_at_text:
  assumes "NUL \<notin> set w" and "NUL \<notin> set x"
  shows "sprintf_at (x @ rest) (length x) w =
    (if length (x @ rest) < length (x @ w) + 1 then Inl OutOfBounds
     else Inr ((x @ w) @ NUL # drop (length w + 1) rest))"
    and "strlen ((x @ w) @ NUL # drop (length w + 1) rest) = length (x @ w)"
proof -
  show "sprintf_at (x @ rest) (length x) w =
    (if length (x @ rest) < length (x @ w) + 1 then Inl OutOfBounds
     else Inr ((x @ w) @ NUL # drop (length w + 1) rest))"
    by (simp add: sprintf_at_def add.commute)
  show "strlen ((x @ w) @ NUL # drop (length w + 1) rest) = length (x @ w)"
    using assms by (intro strlen_append_NUL) auto
qed

text \<open>The buffer of the older version holds the text of the newer one and its NUL.\<close>

lemma old_print_pids_eq:
  assumes "NUL \<notin> set x" and "length (x @ rest) = buffsize" and "xs = [] \<Longrightarrow> rest \<noteq> [] \<and> hd rest = NUL"
  shows "mapK (\<lambda>(b, off, n). (take (off + 1) b, off, n, length b))
      (old_print_pids (\<lambda>b. map_option old_task (h b)) (x @ rest) (length x) sz xs) =
    mapK (\<lambda>y. (y @ [NUL], length y, sz + length xs, buffsize)) (print_pids h x xs)"
  using assms
proof (induction xs arbitrary: x rest sz)
  case Nil
  then show ?case by (cases rest) simp_all
next
  case (Cons c xs)
  show ?case
  proof (cases "h c")
    case None
    then show ?thesis by (simp add: deref_def)
  next
    case (Some t)
    let ?w = "fmt_d (ts_pid t) @ [newline]"
    have w: "NUL \<notin> set ?w" by simp
    note sp = sprintf_at_text [OF w Cons.prems(1), of rest]
    show ?thesis
    proof (cases "buffsize < length (x @ ?w) + 1")
      case True
      with Some sp(1) Cons.prems(2) show ?thesis by (simp add: deref_def Let_def)
    next
      case False
      let ?r = "NUL # drop (length ?w + 1) rest"
      have len: "length ((x @ ?w) @ ?r) = buffsize" using False Cons.prems(2) by simp
      have "mapK (\<lambda>(b, off, n). (take (off + 1) b, off, n, length b))
          (old_print_pids (\<lambda>b. map_option old_task (h b)) ((x @ ?w) @ ?r) (length (x @ ?w)) (sz + 1) xs) =
        mapK (\<lambda>y. (y @ [NUL], length y, sz + 1 + length xs, buffsize)) (print_pids h (x @ ?w) xs)"
        by (rule Cons.IH) (use Cons.prems(1) w len in auto)
      with False Some sp Cons.prems(2) show ?thesis by (simp add: deref_def Let_def)
    qed
  qed
qed

lemma old_header:
  fixes v :: u32
  assumes "length b = buffsize"
  defines "w \<equiv> fmt_d v @ [newline]"
  shows "sprintf_at b 0 w = Inr (w @ NUL # drop (length w + 1) b)"
    and "strlen (w @ NUL # drop (length w + 1) b) = length w"
    and "length (w @ NUL # drop (length w + 1) b) = buffsize"
proof -
  have w: "NUL \<notin> set w" "length w \<le> 12" using length_fmt_d [of v] by (simp_all add: w_def)
  show "sprintf_at b 0 w = Inr (w @ NUL # drop (length w + 1) b)"
    using sprintf_at_text(1) [OF w(1), of "[]" b] w(2) assms(1) by (simp add: buffsize_def)
  show "strlen (w @ NUL # drop (length w + 1) b) = length w" using w(1) by (rule strlen_append_NUL)
  show "length (w @ NUL # drop (length w + 1) b) = buffsize" using w(2) assms(1) by (simp add: buffsize_def)
qed

lemma old_myread_eq:
  assumes tb: "length tb = buffsize" and b: "length b = buffsize" and ne: "HEAD s \<noteq> []"
  shows "old_myread (Some tb) (Some b) off (forget s) = mp2_myread True True off s"
proof (cases "0 < off")
  case True
  then show ?thesis by (simp add: old_myread_def mp2_myread_def)
next
  case False
  let ?w = "fmt_d (of_nat (length (HEAD s))) @ [newline]"
  note hd = old_header [OF b, of "of_nat (length (HEAD s))"]
  have eq: "mapK (\<lambda>(b, off, n). (take (off + 1) b, off, n, length b))
      (old_print_pids (\<lambda>b. map_option old_task (slab s b)) tb 0 0 (HEAD s)) =
    mapK (\<lambda>y. (y @ [NUL], length y, length (HEAD s), buffsize)) (print_pids (slab s) [] (HEAD s))"
    using old_print_pids_eq [of "[]" tb "HEAD s" "slab s" 0] tb ne by simp
  show ?thesis
  proof (cases "print_pids (slab s) [] (HEAD s)")
    case (Inl e)
    with eq have "old_print_pids (\<lambda>b. map_option old_task (slab s b)) tb 0 0 (HEAD s) = Inl e"
      by (cases "old_print_pids (\<lambda>b. map_option old_task (slab s b)) tb 0 0 (HEAD s)") auto
    with Inl False ne show ?thesis by (simp add: old_myread_def mp2_myread_def list_empty_def)
  next
    case (Inr y)
    with eq obtain b1 where b1: "old_print_pids (\<lambda>b. map_option old_task (slab s b)) tb 0 0 (HEAD s) =
        Inr (b1, length y, length (HEAD s))" "take (length y + 1) b1 = y @ [NUL]" "length b1 = buffsize"
      by (auto simp: kres_simps)
    have ylen: "length y < buffsize" using arg_cong [OF b1(2), of length] b1(3) by simp
    have "old_myread (Some tb) (Some b) 0 (forget s) =
        (if buffsize < length ?w + length y + 1 then Inl OutOfBounds
         else Inr (length ?w + length y + 1, ?w @ y @ [NUL], length ?w + length y + 1))"
      using ne ylen b1(3)
      unfolding old_myread_def forget_sel Let_def
      by (simp only: nonnull_simps bindK_Inr list_empty_def if_False b1(1) prod.case hd less_irrefl) (use b1(2) in simp)
    with Inr False show ?thesis by (simp add: mp2_myread_def Let_def)
  qed
qed

lemma old_myread_empty:
  assumes "length tb = buffsize" and b: "length b = buffsize" and e: "HEAD s = []"
  shows "old_myread (Some tb) (Some b) 0 (forget s) = Inr (3, [CHR ''0'', newline, tb ! 0], 3)"
proof -
  have "digit_char 0 = CHR ''0''" by code_simp
  then have w: "fmt_d 0 @ [newline] = [CHR ''0'', newline]"
    by (simp add: fmt_d_def dec_int_def dec_nat.simps)
  note hd = old_header [OF b, of 0, unfolded w]
  have "0 < length tb" using assms(1) by (simp add: buffsize_def)
  then obtain c tb' where "tb = c # tb'" by (cases tb) auto
  then show ?thesis
    using hd by (simp add: old_myread_def e list_empty_def w Let_def buffsize_def)
qed

section \<open>Releases\<close>

lemma yield_with_effect:
  assumes inv: "mp2_inv s" and a: "find_by_pid s p = Inr (Some a)" and t: "slab s a = Some t"
    and k: "ts_tsk t = Some k" "k \<notin> exited s" and np: "ts_next_period t \<noteq> 0"
  shows "\<exists>s' t'. yield_with ticks fin j p s = Inr s' \<and> HEAD s' = HEAD s \<and> slab s' = (slab s)(a \<mapsto> t')
    \<and> ts_pid t' = ts_pid t \<and> ts_tsk t' = ts_tsk t \<and> ts_period t' = ts_period t
    \<and> ts_next_period t' = ts_next_period t + ticks (ts_period t) \<and> exited s' = exited s"
proof (cases "j < ts_next_period t")
  case True
  then show ?thesis
    using trace_curr_ok [OF inv] inv a t k np unfolding mp2_inv_def
    by (simp add: yield_with_def set_task_sleep_def mod_timer_def deref_def Let_def)
      (rule exI, rule conjI, rule refl, simp)
next
  case False
  then show ?thesis
    using trace_curr_ok [OF inv] inv a t np unfolding mp2_inv_def
    by (simp add: yield_with_def deref_def) (rule exI, rule conjI, rule refl, simp)
qed

text \<open>A process of the older version that yields at the times of a list.\<close>

fun old_yield_run :: "(u64 \<Rightarrow> u32) \<Rightarrow> u32 \<Rightarrow> u64 list \<Rightarrow> mp2_old \<Rightarrow> mp2_old kres" where
  "old_yield_run j2m p [] s = Inr s"
| "old_yield_run j2m p (j # js) s = bindK (old_yield_entry j2m j p s) (old_yield_run j2m p js)"

lemma old_yield_run_grid:
  assumes "mp2_inv s" and "find_by_pid s p = Inr (Some a)" and "slab s a = Some t" and "ts_tsk t = Some k"
    and "k \<notin> exited s" and "ts_next_period t \<noteq> 0"
    and "unat (ts_next_period t) + length js * unat (old_ticks j2m (ts_period t)) < 2 ^ 64"
  shows "\<exists>s' t'. old_yield_run j2m p js (forget s) = Inr s' \<and> old_slab s' a = Some t'
    \<and> unat (os_next_period t') = unat (ts_next_period t) + length js * unat (old_ticks j2m (ts_period t))"
  using assms
proof (induction js arbitrary: s t)
  case Nil
  then show ?case by auto
next
  case (Cons j js)
  let ?P = "old_ticks j2m (ts_period t)"
  obtain s1 t1 where s1: "yield_with (old_ticks j2m) id j p s = Inr s1" "HEAD s1 = HEAD s"
      "slab s1 = (slab s)(a \<mapsto> t1)" "exited s1 = exited s"
    and t1: "ts_pid t1 = ts_pid t" "ts_tsk t1 = ts_tsk t" "ts_period t1 = ts_period t"
      "ts_next_period t1 = ts_next_period t + ?P"
    using yield_with_effect [OF Cons.prems(1-6), of "old_ticks j2m" id j] by blast
  have inv1: "mp2_inv s1" using Cons.prems(1) s1(1) by (rule yield_with_inv) simp
  have f1: "find_by_pid s1 p = Inr (Some a)"
    using Cons.prems(1) inv1 Cons.prems(2) s1(2,3) Cons.prems(3) t1(1) by (rule find_by_pid_upd)
  have np: "unat (ts_next_period t1) = unat (ts_next_period t) + unat ?P"
    unfolding t1(4) using Cons.prems(7) by (intro unat_add_fits) simp
  have "ts_next_period t1 \<noteq> 0"
    using np unat_pos [OF Cons.prems(6)] by (metis add_gr_0 unat_0 less_irrefl)
  with Cons.IH [OF inv1 f1, of t1] Cons.prems(4,5,7) s1 t1 np show ?case
    by (auto simp: algebra_simps old_yield_with)
qed

lemma yield_with_cong:
  assumes a: "find_by_pid s p = Inr (Some a)" and t: "slab s a = Some t" and np: "ts_next_period t \<noteq> 0"
    and eq: "ticks (ts_period t) = ticks' (ts_period t)"
  shows "yield_with ticks fin j p s = yield_with ticks' fin' j p s"
proof -
  let ?mid = "if j < ts_next_period t
    then bindK (set_task_sleep p s) (\<lambda>(ret, s1). mod_timer a (ts_next_period t) s1) else Inr s"
  have per: "ts_period t2 = ts_period t" if mid: "?mid = Inr s2" and t2: "slab s2 a = Some t2" for s2 t2
  proof (cases "j < ts_next_period t")
    case True
    with mid obtain r s1 where s1: "set_task_sleep p s = Inr (r, s1)" "mod_timer a (ts_next_period t) s1 = Inr s2"
      by (auto simp: kres_simps)
    from s1(1) show ?thesis
      by (rule set_task_sleep_cases) (use s1(2) a t t2 in \<open>auto simp: mod_timer_def kres_simps\<close>)
  qed (use mid t t2 in simp)
  have "yield_with tk f j p s = bindK (trace_curr s) (\<lambda>_. bindK ?mid (\<lambda>s2. bindK (deref (slab s2) a) (\<lambda>t2.
      bindK (wake_dispatch (set_node a
        (t2\<lparr>ts_next_period := ts_next_period t2 + tk (ts_period t2)\<rparr>) s2)) (\<lambda>s3. Inr (emit Schedule s3)))))" for tk f
    using a t np by (simp add: yield_with_def deref_def)
  then show ?thesis
    by (simp only:) (intro bindK_cong refl, simp add: per eq deref_eq_Inr)
qed

lemma old_reg_accepted:
  assumes "mp2_inv s" and "reg_entry tab (Some a) p P C s = Inr (0, s')"
  shows "old_reg_entry tab (Some a) p P C (forget s) = Inr (0, forget s')"
proof -
  obtain n d where "s' = link_task a (new_task tab p P C) (s\<lparr>numerator := n, denominator := d\<rparr>)" "mycache s"
    using assms(2) by (auto elim!: reg_entry_cases)
  moreover from this have "forget s' = forget (link_task a (new_task tab p P C) s)"
    by (simp add: forget_def link_task_def)
  ultimately show ?thesis using assms(1) old_reg_entry_eq [of s tab "Some a" p P C] by (simp add: mp2_inv_def)
qed

lemma mapK_ident: "mapK (\<lambda>x. x) r = r"
  by (cases r) simp_all

text \<open>Yields of a registered pid whose period both versions convert alike.\<close>

lemma yields_agree:
  assumes a: "find_by_pid s p = Inr (Some a)" and t: "slab s a = Some t"
    and eq: "old_ticks j2m (ts_period t) = period_ticks hz (ts_period t)"
  shows "mapK (\<lambda>o'. if ts_next_period t = 0 then old_emit Schedule o' else o') (old_yield_entry j2m j p (forget s)) =
    mapK forget (yield_entry hz j p s)"
proof (cases "ts_next_period t = 0")
  case True
  let ?s = "set_node a (t\<lparr>ts_next_period := j + period_ticks hz (ts_period t), ts_state := READY\<rparr>) s"
  have y: "yield_with tk fin j p s = bindK (trace_curr s) (\<lambda>_. bindK (wake_dispatch ?s) (\<lambda>s3. Inr (fin s3)))"
    if "tk (ts_period t) = period_ticks hz (ts_period t)" for tk fin
    using a t True that by (simp add: yield_with_def deref_def)
  show ?thesis
    unfolding old_yield_with yield_entry_with y [of "old_ticks j2m", OF eq] y [of "period_ticks hz", OF refl]
    using True by (simp add: forget_hom)
next
  case False
  then have "yield_with (old_ticks j2m) id j p s = yield_with (period_ticks hz) (emit Schedule) j p s"
    using a t eq by (intro yield_with_cong)
  with False show ?thesis by (simp add: old_yield_with yield_entry_with mapK_ident)
qed

lemma old_myread_again: "0 < off \<Longrightarrow> old_myread tb b off o' = mp2_myread True True off s"
  by (simp add: old_myread_def mp2_myread_def)

lemma myread_empty: "HEAD s = [] \<Longrightarrow> mp2_myread True True 0 s = Inr (3, [CHR ''0'', newline, NUL], 3)"
proof -
  have "digit_char 0 = CHR ''0''" by code_simp
  then have "fmt_d 0 = ''0''" by (simp add: fmt_d_def dec_int_def dec_nat.simps)
  moreover assume "HEAD s = []"
  ultimately show ?thesis by (simp add: mp2_myread_def buffsize_def)
qed

section \<open>Properties\<close>

text \<open>
  C10: The two versions of the scheduler, related by \<open>forget\<close>, which drops the books of the admission
  control and encodes the state of each task as its number.  On every reachable state of \<open>mp2.c\<close> the
  dispatcher, the timer callback and the unloading of \<open>mp2_dump.c\<close> do exactly what those of \<open>mp2.c\<close>
  do, faults included.  When memory can be allocated, deregistration, registration, yield and read
  differ as follows and in nothing else.  A deregistration
  lacks the final wake-up of the dispatcher.  A registration links the task whatever its load: as
  \<open>mp2.c\<close> does when it accepts the task, and also where \<open>mp2.c\<close> refuses it.  A yield is the same
  function of the conversion of the period and of what ends the first yield: the older version
  converts the period with \<open>jiffies_to_msecs\<close> and its first yield does not call the scheduler; so
  for a registered pid whose period both convert alike the two agree up to that call, and for an
  unregistered pid both dereference a null pointer.  A read returns the same bytes and runs over
  its 2048-byte buffers in the same cases while a task is registered; with an empty list the third
  byte it returns is the first byte of an uninitialised buffer instead of a NUL.
\<close>

theorem older_version_equivalent:
  assumes "mp2_reachable tab hz good s"
  shows "old_dispatch_fn (forget s) = mapK forget (dispatch_fn s)
    \<and> old_tm_callback a (forget s) = mapK forget (mp2_tm_callback a s)
    \<and> old_mp2_exit (forget s) = mapK forget (mp2_exit s)
    \<and> bindK (old_dereg_entry p (forget s))
        (\<lambda>(r, o'). Inr (r, if r = 0 then old_emit Wake_up_dispatch o' else o')) =
      mapK (\<lambda>(r, s'). (r, forget s')) (dereg_entry p s)
    \<and> old_reg_entry tab' (Some a) p P C (forget s) =
      (if mycache s then Inr (0, forget (link_task a (new_task tab' p P C) s)) else Inl NullDeref)
    \<and> (\<forall>s'. reg_entry tab' (Some a) p P C s = Inr (0, s') \<longrightarrow>
        old_reg_entry tab' (Some a) p P C (forget s) = Inr (0, forget s'))
    \<and> old_yield_entry j2m j p (forget s) = mapK forget (yield_with (old_ticks j2m) id j p s)
    \<and> yield_entry hz' j p s = yield_with (period_ticks hz') (emit Schedule) j p s
    \<and> (\<forall>b t. find_by_pid s p = Inr (Some b) \<longrightarrow> slab s b = Some t \<longrightarrow>
        old_ticks j2m (ts_period t) = period_ticks hz' (ts_period t) \<longrightarrow>
        mapK (\<lambda>o'. if ts_next_period t = 0 then old_emit Schedule o' else o') (old_yield_entry j2m j p (forget s)) =
        mapK forget (yield_entry hz' j p s))
    \<and> (find_by_pid s p = Inr None \<longrightarrow>
        old_yield_entry j2m j p (forget s) = Inl NullDeref \<and> yield_entry hz' j p s = Inl NullDeref)
    \<and> (length tmpbuf = 2048 \<longrightarrow> length buf = 2048 \<longrightarrow>
        old_myread (Some tmpbuf) (Some buf) off (forget s) =
        (if HEAD s = [] \<and> off = 0 then Inr (3, [CHR ''0'', newline, tmpbuf ! 0], 3) else mp2_myread True True off s))
    \<and> (HEAD s = [] \<longrightarrow> mp2_myread True True 0 s = Inr (3, [CHR ''0'', newline, NUL], 3))"
proof (intro conjI allI impI)
  have inv: "mp2_inv s" using assms by (rule reachable_inv)
  show "old_dispatch_fn (forget s) = mapK forget (dispatch_fn s)" by (rule old_dispatch_fn_eq)
  show "old_tm_callback a (forget s) = mapK forget (mp2_tm_callback a s)" by (rule old_tm_callback_eq)
  show "old_mp2_exit (forget s) = mapK forget (mp2_exit s)" by (rule old_mp2_exit_eq)
  show "bindK (old_dereg_entry p (forget s))
      (\<lambda>(r, o'). Inr (r, if r = 0 then old_emit Wake_up_dispatch o' else o')) =
    mapK (\<lambda>(r, s'). (r, forget s')) (dereg_entry p s)"
    by (rule old_dereg_entry_eq) (use inv in \<open>simp add: mp2_inv_def\<close>)
  show "old_reg_entry tab' (Some a) p P C (forget s) =
      (if mycache s then Inr (0, forget (link_task a (new_task tab' p P C) s)) else Inl NullDeref)"
    using inv old_reg_entry_eq [of s tab' "Some a" p P C] by (simp add: mp2_inv_def cache_alloc_from_def)
  show "old_reg_entry tab' (Some a) p P C (forget s) = Inr (0, forget s')"
    if "reg_entry tab' (Some a) p P C s = Inr (0, s')" for s'
    using inv that by (rule old_reg_accepted)
  show "old_yield_entry j2m j p (forget s) = mapK forget (yield_with (old_ticks j2m) id j p s)"
    by (rule old_yield_with)
  show "yield_entry hz' j p s = yield_with (period_ticks hz') (emit Schedule) j p s" by (rule yield_entry_with)
  show "mapK (\<lambda>o'. if ts_next_period t = 0 then old_emit Schedule o' else o') (old_yield_entry j2m j p (forget s)) =
      mapK forget (yield_entry hz' j p s)"
    if "find_by_pid s p = Inr (Some b)" "slab s b = Some t"
      "old_ticks j2m (ts_period t) = period_ticks hz' (ts_period t)" for b t
    using that by (rule yields_agree)
  show "old_yield_entry j2m j p (forget s) = Inl NullDeref" "yield_entry hz' j p s = Inl NullDeref"
    if "find_by_pid s p = Inr None"
    using that trace_curr_ok [OF inv] by (simp_all add: old_yield_with yield_entry_with yield_with_def)
  show "old_myread (Some tmpbuf) (Some buf) off (forget s) =
      (if HEAD s = [] \<and> off = 0 then Inr (3, [CHR ''0'', newline, tmpbuf ! 0], 3) else mp2_myread True True off s)"
    if "length tmpbuf = 2048" "length buf = 2048"
    using that old_myread_eq [of tmpbuf buf s off] old_myread_empty [of tmpbuf buf s] old_myread_again [of off "Some tmpbuf" "Some buf" "forget s" s]
    by (cases "HEAD s = []") (auto simp: buffsize_def)
  show "mp2_myread True True 0 s = Inr (3, [CHR ''0'', newline, NUL], 3)" if "HEAD s = []"
    using that by (rule myread_empty)
qed

theorem older_version_equivalent_witness:
  "old_yield_entry ucast 1010 7 (forget sample3) = mapK forget (yield_entry 1000 1010 7 sample3)
   \<and> old_reg_entry sample_tab (Some 2) 8 300 43 (forget sample1) = Inr (0, forget sample2)"
proof (rule conjI)
  have f: "find_by_pid sample3 7 = Inr (Some 1)" by (simp add: find_by_pid_def deref_def sample_defs)
  have t: "slab sample3 1 = Some ((new_task sample_tab 7 500 86)\<lparr>ts_next_period := 1050, ts_state := READY\<rparr>)"
    (is "_ = Some ?t") by (simp add: sample3_def)
  have n: "ts_next_period ?t \<noteq> 0" and c: "old_ticks ucast (ts_period ?t) = period_ticks 1000 (ts_period ?t)"
    by (simp_all add: old_ticks_def period_ticks_def new_task_def)
  have "mapK (\<lambda>o'. if ts_next_period ?t = 0 then old_emit Schedule o' else o')
      (old_yield_entry ucast 1010 7 (forget sample3)) = mapK forget (yield_entry 1000 1010 7 sample3)"
    using older_version_equivalent [OF sample_live, of 1 7 sample_tab 0 0 ucast 1010 1000] f t c by blast
  with n show "old_yield_entry ucast 1010 7 (forget sample3) = mapK forget (yield_entry 1000 1010 7 sample3)"
    by (simp add: mapK_ident)
  have "mp2_reachable sample_tab 100 (\<lambda>_ _. True) sample1"
    by (rule mp2_reachable.step [OF sample0_reachable TrueI mp2_trans.register [OF _ sample1_reg_now]])
      (simp add: sample0_def)
  from older_version_equivalent [OF this, of 2 8 sample_tab 300 43 ucast 0 1000] sample2_reg
  show "old_reg_entry sample_tab (Some 2) 8 300 43 (forget sample1) = Inr (0, forget sample2)" by blast
qed

text \<open>
  C19: The state field of the older version is typed.  Whatever requests, timers and dispatches
  happen, the \<open>unsigned int\<close> of every linked task holds one of the three codes; the code for running
  is only found in the current task, which is linked; and an activated task whose code is the one
  for sleeping has a pending timer.
\<close>

theorem older_state_codes:
  assumes "old_start s0" and "runs (old_trans tab j2m) s0 es s" and "old_slab s a = Some t"
  shows "os_state t \<in> {old_SLEEPING, old_READY, old_RUNNING} \<and> a \<in> set (old_HEAD s)
    \<and> (os_state t = old_RUNNING \<longrightarrow> old_curr_tsk s = Some a)
    \<and> (os_state t = old_SLEEPING \<longrightarrow> os_next_period t \<noteq> 0 \<longrightarrow> os_tm t \<noteq> None)"
proof -
  obtain m where m: "s = forget m" "mp2_inv m" using assms(1,2) by (rule old_reachable)
  then obtain u where u: "slab m a = Some u" "t = old_task u" using assms(3) by auto
  have "a \<in> set (HEAD m)" using klist_dom [OF m(2)] u(1) by auto
  then show ?thesis
    using m u by (cases "ts_state u") (auto simp: mp2_inv_def)
qed

text \<open>A short run of the older version: loading, one registration and the first yield.\<close>

definition old_sample :: mp2_old where
  "old_sample = forget (emit Wake_up_dispatch (set_node 1
     ((new_task sample_tab 7 500 86)\<lparr>ts_next_period := 1000 + 2000, ts_state := READY\<rparr>) sample1))"

definition j2m_250 :: "u64 \<Rightarrow> u32" where
  "j2m_250 x = of_nat (4 * unat x)"

lemma old_sample_start: "old_start (forget sample0)"
  using sample0_init by (auto simp: old_start_def old_mp2_init_eq intro!: exI [of _ True] exI [of _ Kth_thread])

lemma old_sample_run:
  "runs (old_trans sample_tab j2m_250) (forget sample0) [Register 7 500 86 1, Yield 1000 7] old_sample"
proof (rule runs_two)
  have "old_reg_entry sample_tab (Some 1) 7 500 86 (forget sample0) = Inr (0, forget sample1)"
    by (rule old_reg_accepted [OF _ sample1_reg]) (rule mp2_inv_init [OF sample0_init], simp)
  moreover have "old_pid_now sample_tab (forget sample0) = sample_tab" by (simp add: old_pid_now_eq sample_now)
  ultimately have "old_reg_entry (old_pid_now sample_tab (forget sample0)) (Some 1) 7 500 86 (forget sample0) =
      Inr (0, forget sample1)" by (simp only:)
  then show "old_trans sample_tab j2m_250 (forget sample0) (Register 7 500 86 1) (forget sample1)"
    by (rule old_trans.register [rotated]) (simp add: sample0_def)
  have "yield_with (old_ticks j2m_250) id 1000 7 sample1 = Inr (emit Wake_up_dispatch (set_node 1
     ((new_task sample_tab 7 500 86)\<lparr>ts_next_period := 1000 + 2000, ts_state := READY\<rparr>) sample1))"
    by (simp add: yield_with_def trace_curr_def find_by_pid_def deref_def sample_defs old_ticks_def j2m_250_def)
  then show "old_trans sample_tab j2m_250 (forget sample1) (Yield 1000 7) old_sample"
    by (intro old_trans.yield) (simp add: old_yield_with old_sample_def)
qed

theorem older_state_codes_witness:
  "\<exists>t. old_slab old_sample 1 = Some t \<and> os_state t \<in> {old_SLEEPING, old_READY, old_RUNNING}
     \<and> 1 \<in> set (old_HEAD old_sample)"
proof -
  obtain t where t: "old_slab old_sample 1 = Some t" by (simp add: old_sample_def)
  from older_state_codes [OF old_sample_start old_sample_run t] t show ?thesis by blast
qed

text \<open>
  C39: The older version converts the period the wrong way round.  The kernel's \<open>jiffies_to_msecs\<close>
  multiplies by the length of a tick in milliseconds, \<open>1000 div HZ\<close> when \<open>HZ\<close> divides 1000.  After
  \<open>n\<close> yields of an activated task of a living process its next release has moved by \<open>n\<close> times that
  product instead of the quotient: the releases are \<open>(1000 div HZ)\<^sup>2\<close> times as far apart in milliseconds as the period,
  and right only for \<open>HZ = 1000\<close>.
\<close>

theorem older_periods_are_stretched:
  assumes "old_start s0" and "runs (old_trans tab j2m) s0 es s"
    and "old_find_by_pid s p = Inr (Some a)" and "old_slab s a = Some t" and "os_tsk t = Some k"
    and "k \<notin> old_exited s" and "os_next_period t \<noteq> 0"
    and "\<And>x. j2m x = of_nat ((1000 div HZ) * unat x)"
    and "(1000 div HZ) * unat (os_period t) < 2 ^ 32"
    and "unat (os_next_period t) + length js * ((1000 div HZ) * unat (os_period t)) < 2 ^ 64"
  shows "\<exists>s' t'. old_yield_run j2m p js s = Inr s' \<and> old_slab s' a = Some t'
    \<and> (unat (os_next_period t') - unat (os_next_period t)) * (1000 div HZ) =
      length js * unat (os_period t) * (1000 div HZ) ^ 2"
proof -
  obtain m where m: "s = forget m" "mp2_inv m" using assms(1,2) by (rule old_reachable)
  then obtain u where u: "slab m a = Some u" "t = old_task u" using assms(4) by auto
  have len: "unat (of_nat n :: u32) = n" if "n < 2 ^ 32" for n using that by (simp add: unat_of_nat)
  have "unat (old_ticks j2m (ts_period u)) = (1000 div HZ) * unat (ts_period u)"
    unfolding old_ticks_def assms(8) unat_ucast_64 by (rule len) (use assms(9) u(2) in simp)
  moreover have "find_by_pid m p = Inr (Some a)" using assms(3) by (simp add: m(1) old_find_eq)
  ultimately show ?thesis
    using old_yield_run_grid [OF m(2) _ u(1), of p k js j2m] assms(5-7,10) u(2)
    by (auto simp: m(1) power2_eq_square)
qed

theorem older_periods_are_stretched_witness:
  "\<exists>s' t'. old_yield_run j2m_250 7 [1500, 5500] old_sample = Inr s' \<and> old_slab s' 1 = Some t'
    \<and> (unat (os_next_period t') - 3000) * 4 = 2 * 500 * 16"
proof -
  let ?t = "old_task ((new_task sample_tab 7 500 86)\<lparr>ts_next_period := 1000 + 2000, ts_state := READY\<rparr>)"
  have t: "old_slab old_sample 1 = Some ?t" by (simp add: old_sample_def)
  have f: "old_find_by_pid old_sample 7 = Inr (Some 1)"
    by (simp add: old_find_by_pid_def old_sample_def sample_defs deref_def)
  have k: "os_tsk ?t = Some 70" and n: "os_next_period ?t \<noteq> 0" and x: "70 \<notin> old_exited old_sample"
    by (simp_all add: sample_defs old_sample_def)
  have j: "j2m_250 x = of_nat ((1000 div 250) * unat x)" for x by (simp add: j2m_250_def)
  have P: "unat (os_period ?t) = 500" "unat (os_next_period ?t) = 3000" by (simp_all add: new_task_def)
  have b: "(1000 div 250) * unat (os_period ?t) < 2 ^ 32"
    "unat (os_next_period ?t) + length [1500, 5500 :: u64] * ((1000 div 250) * unat (os_period ?t)) < 2 ^ 64"
    unfolding P by simp_all
  from older_periods_are_stretched [OF old_sample_start old_sample_run f t k x n j b] show ?thesis
    unfolding P by simp
qed

end
