(* ===== verification/MP3.thy ===== *)
theory MP3
  imports KLib KList KTrans
begin

text \<open>
  The page-fault profiler module, \<open>MP3/mp3.c\<close> with \<open>MP3/mp3_given.h\<close>.

  The state is the list of registered processes with the store of their structs, the process
  table of the kernel as far as the module reads and resets it (fault counters and CPU times), the
  profiler buffer \<open>vm\<close> as an array of \<open>unsigned long\<close> (512000 bytes, 8 bytes each), the position
  \<open>offset\<close> in it, the flag \<open>BUFFER_FILLED_UP\<close>, the spin lock, the delayed work, and the alerts
  written to the kernel log.  The buffer is shared with user space, so a step of the system may also
  store to it.

  The work is \<open>pending\<close> (queued, its timer or its worker has not started it), or \<open>running\<close> (the worker
  has entered the callback and not yet taken the lock).  Everything a handler does with the lock held is
  one step; a handler that waits for the callback while it holds the lock the callback needs, or
  takes the lock when it is held, ends in the fault \<open>Deadlock\<close>.
\<close>

section \<open>State\<close>

definition VM_SIZE :: nat where "VM_SIZE = 512000"
definition VM_ELEMENT_SIZE :: u32 where "VM_ELEMENT_SIZE = 128000"
definition SAMPLE_RATE :: u64 where "SAMPLE_RATE = 20"

text \<open>The \<open>unsigned long\<close> values that fit into the buffer.\<close>

definition vm_elements :: nat where "vm_elements = VM_SIZE div 8"

record proc_stat =
  min_flt :: u64
  maj_flt :: u64
  p_utime :: u64
  p_stime :: u64

record mp3_task_struct =
  ts3_minor_pf :: u64
  ts3_major_pf :: u64
  ts3_utime :: u64
  ts3_stime :: u64
  ts3_pid :: u32

datatype alert =
    BufferUsedUp | BufferFilledUp | QueueWorkFailed | UnregNotFound | NotSupported | BadPid

record mp3 =
  mp3_HEAD :: "addr list"
  heap :: "addr \<rightharpoonup> mp3_task_struct"
  procs :: "u32 \<rightharpoonup> proc_stat"
  vm :: "u64 list"
  vm_offset :: u32
  BUFFER_FILLED_UP :: bool
  lock :: bool
  pending :: bool
  running :: bool
  alerts :: "alert list"

definition printk_alert :: "alert \<Rightarrow> mp3 \<Rightarrow> mp3" where
  "printk_alert m s = s\<lparr>alerts := alerts s @ [m]\<rparr>"

definition spin_lock :: "mp3 \<Rightarrow> mp3 kres" where
  "spin_lock s = (if lock s then Inl Deadlock else Inr (s\<lparr>lock := True\<rparr>))"

definition spin_unlock :: "mp3 \<Rightarrow> mp3" where
  "spin_unlock s = s\<lparr>lock := False\<rparr>"

text \<open>
  \<open>queue_delayed_work\<close> returns true when it queues the work and false when it was queued already.
  \<open>cancel_delayed_work_sync\<close> removes it from the queue and waits for a running callback, which in
  both places where it is called waits for the lock the caller holds.
\<close>

definition queue_delayed_work :: "mp3 \<Rightarrow> bool \<times> mp3" where
  "queue_delayed_work s = (\<not> pending s, s\<lparr>pending := True\<rparr>)"

definition cancel_delayed_work_sync :: "mp3 \<Rightarrow> mp3 kres" where
  "cancel_delayed_work_sync s =
     (if running s \<and> lock s then Inl Deadlock else Inr (s\<lparr>pending := False, running := False\<rparr>))"

section \<open>Process statistics\<close>

definition mp3_find_task_by_pid :: "(u32 \<rightharpoonup> proc_stat) \<Rightarrow> u32 \<Rightarrow> proc_stat option" where
  "mp3_find_task_by_pid ps nr = ps nr"

text \<open>
  \<open>get_cpu_use\<close>: the return value, the values stored through the four pointers (none are stored
  for an unknown pid) and the process table with the counters reset.
\<close>

definition no_stat :: proc_stat where
  "no_stat = \<lparr>min_flt = 0, maj_flt = 0, p_utime = 0, p_stime = 0\<rparr>"

definition mp3_get_cpu_use ::
  "u32 \<Rightarrow> (u32 \<rightharpoonup> proc_stat) \<Rightarrow> int \<times> proc_stat option \<times> (u32 \<rightharpoonup> proc_stat)" where
  "mp3_get_cpu_use pid ps =
     (case mp3_find_task_by_pid ps pid of
        None \<Rightarrow> (- 1, None, ps)
      | Some t \<Rightarrow> (0, Some t, ps(pid \<mapsto> no_stat)))"

section \<open>The list\<close>

definition get_by_pid :: "mp3 \<Rightarrow> u32 \<Rightarrow> addr option kres" where
  "get_by_pid s pid =
     (if list_empty (mp3_HEAD s) then Inr None
      else find_entry (heap s) (\<lambda>t. ts3_pid t = pid) (mp3_HEAD s))"

section \<open>The work\<close>

text \<open>The loop over the list: the structs and the process table are updated, three sums formed.\<close>

fun sample_loop ::
  "addr list \<Rightarrow> (addr \<rightharpoonup> mp3_task_struct) \<times> (u32 \<rightharpoonup> proc_stat) \<Rightarrow> u64 \<times> u64 \<times> u64
   \<Rightarrow> (((addr \<rightharpoonup> mp3_task_struct) \<times> (u32 \<rightharpoonup> proc_stat)) \<times> u64 \<times> u64 \<times> u64) kres" where
  "sample_loop [] st tmps = Inr (st, tmps)"
| "sample_loop (itr # rest) (h, ps) (t1, t2, t3) =
     bindK (deref h itr) (\<lambda>n.
       let (ret, vals, ps') = mp3_get_cpu_use (ts3_pid n) ps;
           n' = (case vals of None \<Rightarrow> n
                 | Some v \<Rightarrow> n\<lparr>ts3_minor_pf := min_flt v, ts3_major_pf := maj_flt v,
                              ts3_utime := p_utime v, ts3_stime := p_stime v\<rparr>)
       in sample_loop rest (h(itr \<mapsto> n'), ps')
            (t1 + ts3_minor_pf n', t2 + ts3_major_pf n', t3 + (ts3_stime n' + ts3_utime n')))"

definition vm_store :: "nat \<Rightarrow> u64 \<Rightarrow> u64 list \<Rightarrow> u64 list kres" where
  "vm_store i v m = (if i < length m then Inr (m[i := v]) else Inl OutOfBounds)"

text \<open>The loop that stores the sample at \<open>ptr\<close> and the elements after it.\<close>

fun vm_stores :: "nat \<Rightarrow> u64 list \<Rightarrow> u64 list \<Rightarrow> u64 list kres" where
  "vm_stores ptr [] m = Inr m"
| "vm_stores ptr (v # vs) m = bindK (vm_store ptr v m) (vm_stores (Suc ptr) vs)"

definition workqueue_enter :: "mp3 \<Rightarrow> mp3" where
  "workqueue_enter s =
     (let s = s\<lparr>pending := False\<rparr> in
      if BUFFER_FILLED_UP s then printk_alert BufferUsedUp s else s\<lparr>running := True\<rparr>)"

definition workqueue_body :: "u64 \<Rightarrow> mp3 \<Rightarrow> mp3 kres" where
  "workqueue_body jiffies s =
     bindK (spin_lock s) (\<lambda>s.
     bindK (sample_loop (mp3_HEAD s) (heap s, procs s) (0, 0, 0)) (\<lambda>((h, ps), t1, t2, t3).
     bindK (vm_stores (unat (vm_offset s)) [jiffies, t1, t2, t3] (vm s)) (\<lambda>m.
       let ptr = unat (vm_offset s) + 4;
           s = s\<lparr>heap := h, procs := ps, vm := m, vm_offset := vm_offset s + 4\<rparr>
       in bindK (if VM_ELEMENT_SIZE \<le> vm_offset s
                 then Inr ((printk_alert BufferFilledUp s)\<lparr>BUFFER_FILLED_UP := True\<rparr>)
                 else bindK (vm_store ptr (- 1) (vm s)) (\<lambda>m. Inr (s\<lparr>vm := m\<rparr>)))
            (\<lambda>s. Inr ((spin_unlock (snd (queue_delayed_work s)))\<lparr>running := False\<rparr>)))))"

text \<open>The whole callback without interruption.\<close>

definition workqueue_callback :: "u64 \<Rightarrow> mp3 \<Rightarrow> mp3 kres" where
  "workqueue_callback jiffies s =
     (if BUFFER_FILLED_UP s then Inr (workqueue_enter s) else workqueue_body jiffies (workqueue_enter s))"

section \<open>Registration\<close>

text \<open>
  \<open>a\<close> is the address \<open>kmalloc\<close> returns and \<open>junk\<close> what the memory holds: only the pid is set.
\<close>

definition link_node :: "addr \<Rightarrow> mp3_task_struct \<Rightarrow> mp3 \<Rightarrow> mp3" where
  "link_node a n s = s\<lparr>heap := (heap s)(a \<mapsto> n), mp3_HEAD := list_add_tail a (mp3_HEAD s)\<rparr>"

definition unlink_node :: "addr \<Rightarrow> mp3 \<Rightarrow> mp3" where
  "unlink_node a s = s\<lparr>mp3_HEAD := list_del a (mp3_HEAD s), heap := (heap s)(a := None)\<rparr>"

definition start_work :: "mp3 \<Rightarrow> mp3" where
  "start_work s =
     (let (queued, s) = queue_delayed_work (s\<lparr>pending := False\<rparr>)
      in if queued then printk_alert QueueWorkFailed s else s)"

definition mp3_reg_entry :: "addr option \<Rightarrow> mp3_task_struct \<Rightarrow> u32 \<Rightarrow> mp3 \<Rightarrow> (nat \<times> mp3) kres" where
  "mp3_reg_entry kmalloc junk pid s =
     bindK (nonnull kmalloc) (\<lambda>a.
       let n = junk\<lparr>ts3_pid := pid\<rparr> in
       if mp3_find_task_by_pid (procs s) pid = None then Inr (1, s\<lparr>heap := (heap s)(a \<mapsto> n)\<rparr>)
       else bindK (spin_lock s) (\<lambda>s.
         let s = (if list_empty (mp3_HEAD s) then start_work s else s)
         in Inr (0, spin_unlock (link_node a n s))))"

definition mp3_unreg_entry :: "u32 \<Rightarrow> mp3 \<Rightarrow> (nat \<times> mp3) kres" where
  "mp3_unreg_entry pid s =
     bindK (spin_lock s) (\<lambda>s.
     bindK (get_by_pid s pid) (\<lambda>task.
       case task of
         None \<Rightarrow> Inr (0, printk_alert UnregNotFound s)
       | Some a \<Rightarrow>
           bindK (if list_empty (list_del a (mp3_HEAD s))
                  then cancel_delayed_work_sync (s\<lparr>vm_offset := 0\<rparr>) else Inr s) (\<lambda>s.
             Inr (0, spin_unlock (unlink_node a s)))))"

section \<open>The proc file\<close>

definition mp3_mywrite :: "addr option \<Rightarrow> mp3_task_struct \<Rightarrow> string \<Rightarrow> mp3 \<Rightarrow> (nat \<times> mp3) kres" where
  "mp3_mywrite kmalloc junk userbuff s =
     (let len = length userbuff; buff = userbuff @ [NUL] in
      if (buff ! 0 \<noteq> CHR ''R'' \<and> buff ! 0 \<noteq> CHR ''U'') \<or> strlen buff < 3
      then Inr (len, printk_alert NotSupported s)
      else bindK (str_at buff 2) (\<lambda>arg.
        let pid = kstrtoint_into arg 0 in
        if sint pid \<le> 0 then Inr (len, printk_alert BadPid s)
        else if buff ! 0 = CHR ''R''
        then bindK (mp3_reg_entry kmalloc junk pid s) (\<lambda>(r, s). Inr (len, s))
        else bindK (mp3_unreg_entry pid s) (\<lambda>(r, s). Inr (len, s))))"

text \<open>
  \<open>myread\<close>: the text is formed from the addresses of the first four elements, but what is copied to
  the reader are the first bytes of the buffer, as many as the text has, and what is returned is
  the number of bytes that could \<^emph>\<open>not\<close> be copied (\<open>copy_to_user\<close>).  The result is the return
  value, the number of bytes of \<open>vm\<close> the copy is asked for and the new file offset.
\<close>

definition fmt_ld :: "u64 \<Rightarrow> string" where
  "fmt_ld w = dec_int (sint w)"

definition mp3_read_text :: "u64 \<Rightarrow> string" where
  "mp3_read_text ptr =
     ''first four elements: '' @ fmt_ld ptr @ '', '' @ fmt_ld (ptr + 8) @ '', '' @ fmt_ld (ptr + 16)
     @ '', '' @ fmt_ld (ptr + 24) @ [newline]"

definition mp3_myread :: "(nat \<Rightarrow> nat) \<Rightarrow> u64 \<Rightarrow> nat \<Rightarrow> (nat \<times> nat \<times> nat) kres" where
  "mp3_myread copy_to_user vm_ptr offset =
     (if 0 < offset then Inr (0, 0, offset)
      else (let len = length (mp3_read_text vm_ptr) in
        if 256 < len + 1 then Inl OutOfBounds
        else Inr (copy_to_user (len + 1), len + 1, offset + (len + 1))))"

section \<open>The character device\<close>

definition myopen :: int where "myopen = 0"
definition myrelease :: int where "myrelease = 0"

text \<open>
  The loops over the pages of the buffer, with \<open>PAGE_SIZE = 2 ^ shift\<close>.  \<open>vmalloc_to_pfn\<close>,
  \<open>remap_pfn_range\<close> (true for a failure) and \<open>vmalloc_to_page\<close> are parameters.  The sizes stay
  below \<open>VM_SIZE + PAGE_SIZE\<close>, so the \<open>unsigned long\<close> counter is a number here.
\<close>

function mmap_loop :: "(nat \<Rightarrow> nat) \<Rightarrow> (nat \<Rightarrow> nat \<Rightarrow> bool) \<Rightarrow> nat \<Rightarrow> nat \<Rightarrow> nat \<Rightarrow> nat \<Rightarrow> nat
   \<Rightarrow> (nat \<times> nat) list \<Rightarrow> int \<times> (nat \<times> nat) list" where
  "mmap_loop to_pfn remap_fails shift base vm_start total_size assigned_size mapped =
     (if assigned_size < VM_SIZE \<and> assigned_size < total_size then
        (let p_addr = to_pfn (base + assigned_size) in
         if p_addr = 0 then (- 1, mapped)
         else if remap_fails (vm_start + assigned_size) p_addr then (- 1, mapped)
         else mmap_loop to_pfn remap_fails shift base vm_start total_size (assigned_size + 2 ^ shift)
                (mapped @ [(vm_start + assigned_size, p_addr)]))
      else (0, mapped))"
  by pat_completeness auto
termination
  by (relation "measure (\<lambda>(_, _, _, _, _, _, i, _). VM_SIZE - i)") (auto intro!: diff_less_mono2)

declare mmap_loop.simps [simp del]

definition mmap_callback :: "(nat \<Rightarrow> nat) \<Rightarrow> (nat \<Rightarrow> nat \<Rightarrow> bool) \<Rightarrow> nat \<Rightarrow> nat \<Rightarrow> nat \<Rightarrow> nat
   \<Rightarrow> int \<times> (nat \<times> nat) list" where
  "mmap_callback to_pfn remap_fails shift base vm_start vm_end =
     mmap_loop to_pfn remap_fails shift base vm_start (vm_end - vm_start) 0 []"

function reserve_loop :: "(nat \<Rightarrow> 'p option) \<Rightarrow> nat \<Rightarrow> nat \<Rightarrow> nat \<Rightarrow> 'p list \<Rightarrow> 'p list kres" where
  "reserve_loop to_page shift base i marked =
     (if i < VM_SIZE then
        bindK (nonnull (to_page (base + i))) (\<lambda>p. reserve_loop to_page shift base (i + 2 ^ shift) (marked @ [p]))
      else Inr marked)"
  by pat_completeness auto
termination
  by (relation "measure (\<lambda>(_, _, _, i, _). VM_SIZE - i)") (auto intro!: diff_less_mono2)

declare reserve_loop.simps [simp del]

definition vm_reserved :: "(nat \<Rightarrow> 'p option) \<Rightarrow> nat \<Rightarrow> nat \<Rightarrow> 'p list kres" where
  "vm_reserved to_page shift base = reserve_loop to_page shift base 0 []"

section \<open>Loading and unloading\<close>

record 'p mp3_module =
  m_state :: mp3
  m_vm :: nat                \<comment> \<open>the address of the buffer\<close>
  m_reserved :: "'p list"    \<comment> \<open>the pages marked reserved\<close>
  m_DELAYED :: u64
  m_chrdev_major :: u32

definition mp3_start_state :: "(u32 \<rightharpoonup> proc_stat) \<Rightarrow> u64 list \<Rightarrow> mp3" where
  "mp3_start_state ps mem =
     \<lparr>mp3_HEAD = [], heap = Map.empty, procs = ps, vm = mem, vm_offset = 0, BUFFER_FILLED_UP = False,
      lock = False, pending = False, running = False, alerts = []\<rparr>"

text \<open>
  \<open>vmalloc\<close> yields an address with the memory found there; \<open>register_chrdev\<close> its \<open>int\<close> result, which is
  stored in an \<open>unsigned int\<close>, so the comparison with 0 is never true.
\<close>

definition mp3_init ::
  "bool \<Rightarrow> nat \<Rightarrow> u64 list \<Rightarrow> (nat \<Rightarrow> 'p option) \<Rightarrow> nat \<Rightarrow> u64 \<Rightarrow> u32 \<Rightarrow> (u32 \<rightharpoonup> proc_stat)
   \<Rightarrow> (errno + 'p mp3_module) kres" where
  "mp3_init proc_create vmalloc mem to_page shift USER_HZ register_chrdev ps =
     (if \<not> proc_create then Inr (Inl ENOMEM)
      else bindK (vm_reserved to_page shift vmalloc) (\<lambda>pages.
        Inr (Inr \<lparr>m_state = mp3_start_state ps mem, m_vm = vmalloc, m_reserved = pages,
                  m_DELAYED = USER_HZ div SAMPLE_RATE, m_chrdev_major = register_chrdev\<rparr>)))"

definition mp3_exit :: "mp3 \<Rightarrow> mp3 kres" where
  "mp3_exit s =
     bindK (spin_lock s) (\<lambda>s.
     bindK (cancel_delayed_work_sync s) (\<lambda>s.
       Inr (spin_unlock (s\<lparr>vm := []\<rparr>))))"

end
