(* ===== verification/MP3_Correct.thy ===== *)
theory MP3_Correct
  imports MP3
begin

text \<open>
  Correctness of the profiler module: the registry of processes, what one run of the work
  stores, the transition system of registrations, work and user stores with its invariant, and
  the ways in which it fails.
\<close>

section \<open>The registry of processes\<close>

definition mp3_linked :: "mp3 \<Rightarrow> bool" where
  "mp3_linked s = (distinct (mp3_HEAD s) \<and> set (mp3_HEAD s) \<subseteq> dom (heap s))"

definition mp3_key :: "mp3 \<Rightarrow> addr \<Rightarrow> u32 option" where
  "mp3_key s a = (if a \<in> set (mp3_HEAD s) then map_option ts3_pid (heap s a) else None)"

lemma get_by_pid_scan:
  assumes "mp3_linked s"
  shows "get_by_pid s pid = Inr (find (\<lambda>a. mp3_key s a = Some pid) (mp3_HEAD s))"
proof -
  have "find_entry (heap s) (\<lambda>t. ts3_pid t = pid) (mp3_HEAD s) =
      Inr (find (\<lambda>a. map_option ts3_pid (heap s a) = Some pid) (mp3_HEAD s))"
    using assms by (intro find_entry_key) (simp add: mp3_linked_def)
  moreover have "find (\<lambda>a. map_option ts3_pid (heap s a) = Some pid) (mp3_HEAD s) =
      find (\<lambda>a. mp3_key s a = Some pid) (mp3_HEAD s)"
    by (rule find_cong_set) (simp add: mp3_key_def)
  ultimately show ?thesis by (auto simp: get_by_pid_def list_empty_def)
qed

interpretation profiled: registry mp3_linked mp3_HEAD mp3_key get_by_pid
  "\<lambda>a p. link_node a (junk\<lparr>ts3_pid := p\<rparr>)" unlink_node for junk
proof unfold_locales
  fix s :: mp3 and a :: addr and k :: u32
  assume inv: "mp3_linked s"
  show "(a \<in> set (mp3_HEAD s)) = (mp3_key s a \<noteq> None)"
    using inv by (auto simp: mp3_linked_def mp3_key_def)
  show "distinct (mp3_HEAD s)" using inv by (simp add: mp3_linked_def)
  show "get_by_pid s k = Inr (find (\<lambda>a. mp3_key s a = Some k) (mp3_HEAD s))"
    using inv by (rule get_by_pid_scan)
  show "mp3_linked (unlink_node a s)"
    using inv by (auto simp: mp3_linked_def unlink_node_def list_del_def)
  show "mp3_HEAD (unlink_node a s) = remove1 a (mp3_HEAD s)"
    by (simp add: unlink_node_def list_del_def)
  show "mp3_key (unlink_node a s) = (mp3_key s)(a := None)"
    using inv by (auto simp: mp3_linked_def unlink_node_def list_del_def mp3_key_def fun_eq_iff)
  assume "mp3_key s a = None"
  then have a: "a \<notin> set (mp3_HEAD s)" using inv by (auto simp: mp3_linked_def mp3_key_def split: if_splits)
  show "mp3_linked (link_node a (junk\<lparr>ts3_pid := k\<rparr>) s)"
    using inv a by (auto simp: mp3_linked_def link_node_def list_add_tail_def)
  show "mp3_HEAD (link_node a (junk\<lparr>ts3_pid := k\<rparr>) s) = mp3_HEAD s @ [a]"
    by (simp add: link_node_def list_add_tail_def)
  show "mp3_key (link_node a (junk\<lparr>ts3_pid := k\<rparr>) s) = (mp3_key s)(a := Some k)"
    using a by (auto simp: mp3_key_def link_node_def list_add_tail_def fun_eq_iff)
qed

section \<open>One sample\<close>

definition pids_of :: "(addr \<rightharpoonup> mp3_task_struct) \<Rightarrow> addr list \<Rightarrow> u32 set" where
  "pids_of h xs = (\<lambda>a. ts3_pid (the (h a))) ` set xs"

definition reset_stats :: "u32 set \<Rightarrow> (u32 \<rightharpoonup> proc_stat) \<Rightarrow> u32 \<rightharpoonup> proc_stat" where
  "reset_stats P ps = (\<lambda>p. if p \<in> P then Some no_stat else ps p)"

definition stat_sum :: "(proc_stat \<Rightarrow> u64) \<Rightarrow> (u32 \<rightharpoonup> proc_stat) \<Rightarrow> u32 set \<Rightarrow> u64" where
  "stat_sum f ps P = (\<Sum>p \<in> P. f (the (ps p)))"

definition cpu_time :: "proc_stat \<Rightarrow> u64" where
  "cpu_time p = p_stime p + p_utime p"

lemma stat_sum_reset:
  assumes "finite P" and "f no_stat = 0" and "ps x = Some v"
  shows "f v + stat_sum f (ps(x \<mapsto> no_stat)) P = stat_sum f ps (insert x P)"
proof -
  have "stat_sum f (ps(x \<mapsto> no_stat)) P = (\<Sum>p \<in> P - {x}. f (the (ps p)))"
    using assms unfolding stat_sum_def by (intro sum.mono_neutral_cong_right) auto
  then show ?thesis using assms by (simp add: stat_sum_def sum.insert_remove)
qed

lemma stat_sum_no_stat: "f no_stat = 0 \<Longrightarrow> stat_sum f (reset_stats P ps) P = 0"
  by (simp add: stat_sum_def reset_stats_def)

lemma stat_fields_no_stat [simp]: "min_flt no_stat = 0" "maj_flt no_stat = 0" "cpu_time no_stat = 0"
  by (simp_all add: no_stat_def cpu_time_def)

lemma pids_of_upd:
  "h a = Some n \<Longrightarrow> ts3_pid n' = ts3_pid n \<Longrightarrow> pids_of (h(a \<mapsto> n')) xs = pids_of h xs"
  unfolding pids_of_def by (rule image_cong) auto

lemma sample_loop_alive:
  assumes "set xs \<subseteq> dom h" and "pids_of h xs \<subseteq> dom ps"
  shows "\<exists>h'. sample_loop xs (h, ps) (t1, t2, t3) =
      Inr ((h', reset_stats (pids_of h xs) ps), t1 + stat_sum min_flt ps (pids_of h xs),
           t2 + stat_sum maj_flt ps (pids_of h xs), t3 + stat_sum cpu_time ps (pids_of h xs))
    \<and> dom h' = dom h \<and> (\<forall>a. map_option ts3_pid (h' a) = map_option ts3_pid (h a))"
  using assms
proof (induction xs arbitrary: h ps t1 t2 t3)
  case Nil
  then show ?case by (simp add: pids_of_def stat_sum_def reset_stats_def)
next
  case (Cons x xs)
  obtain n where n: "h x = Some n" using Cons.prems by auto
  obtain v where v: "ps (ts3_pid n) = Some v" using Cons.prems n by (auto simp: pids_of_def)
  define n' where "n' = n\<lparr>ts3_minor_pf := min_flt v, ts3_major_pf := maj_flt v,
    ts3_utime := p_utime v, ts3_stime := p_stime v\<rparr>"
  have P: "pids_of (h(x \<mapsto> n')) xs = pids_of h xs" by (rule pids_of_upd [where n = n]) (simp_all add: n n'_def)
  have ins: "pids_of h (x # xs) = insert (ts3_pid n) (pids_of h xs)" using n by (simp add: pids_of_def)
  have fin: "finite (pids_of h xs)" by (simp add: pids_of_def)
  have "set xs \<subseteq> dom (h(x \<mapsto> n'))" "pids_of (h(x \<mapsto> n')) xs \<subseteq> dom (ps(ts3_pid n \<mapsto> no_stat))"
    using Cons.prems n unfolding P by (auto simp: ins)
  from Cons.IH [OF this, of "t1 + min_flt v" "t2 + maj_flt v" "t3 + cpu_time v"]
  obtain h' where h': "sample_loop xs (h(x \<mapsto> n'), ps(ts3_pid n \<mapsto> no_stat)) (t1 + min_flt v, t2 + maj_flt v, t3 + cpu_time v) =
      Inr ((h', reset_stats (pids_of h xs) (ps(ts3_pid n \<mapsto> no_stat))),
        t1 + min_flt v + stat_sum min_flt (ps(ts3_pid n \<mapsto> no_stat)) (pids_of h xs),
        t2 + maj_flt v + stat_sum maj_flt (ps(ts3_pid n \<mapsto> no_stat)) (pids_of h xs),
        t3 + cpu_time v + stat_sum cpu_time (ps(ts3_pid n \<mapsto> no_stat)) (pids_of h xs))"
    "dom h' = dom (h(x \<mapsto> n'))" "\<forall>a. map_option ts3_pid (h' a) = map_option ts3_pid ((h(x \<mapsto> n')) a)"
    unfolding P by blast
  have "reset_stats (pids_of h xs) (ps(ts3_pid n \<mapsto> no_stat)) = reset_stats (pids_of h (x # xs)) ps"
    by (auto simp: reset_stats_def ins fun_eq_iff)
  with h' show ?case
    using n v stat_sum_reset [OF fin, of min_flt ps] stat_sum_reset [OF fin, of maj_flt ps]
      stat_sum_reset [OF fin, of cpu_time ps]
    by (auto simp: mp3_get_cpu_use_def mp3_find_task_by_pid_def deref_def n'_def ins cpu_time_def [symmetric]
        add.assoc insert_absorb)
qed

text \<open>Whatever the processes do, the loop keeps the list and the pids and does not fault.\<close>

lemma sample_loop_total:
  assumes "set xs \<subseteq> dom h"
  shows "\<exists>h' ps' ts. sample_loop xs (h, ps) tmps = Inr ((h', ps'), ts)
    \<and> dom h' = dom h \<and> (\<forall>a. map_option ts3_pid (h' a) = map_option ts3_pid (h a))"
  using assms
proof (induction xs arbitrary: h ps tmps)
  case (Cons x xs)
  obtain n where n: "h x = Some n" using Cons.prems by auto
  obtain t1 t2 t3 where t: "tmps = (t1, t2, t3)" by (cases tmps) auto
  define n' where "n' = (case fst (snd (mp3_get_cpu_use (ts3_pid n) ps)) of None \<Rightarrow> n
    | Some v \<Rightarrow> n\<lparr>ts3_minor_pf := min_flt v, ts3_major_pf := maj_flt v, ts3_utime := p_utime v, ts3_stime := p_stime v\<rparr>)"
  have pid: "ts3_pid n' = ts3_pid n" by (simp add: n'_def split: option.split)
  have "set xs \<subseteq> dom (h(x \<mapsto> n'))" using Cons.prems by auto
  from Cons.IH [OF this, of "snd (snd (mp3_get_cpu_use (ts3_pid n) ps))"
      "(t1 + ts3_minor_pf n', t2 + ts3_major_pf n', t3 + (ts3_stime n' + ts3_utime n'))"]
  obtain h' ps' ts where *: "sample_loop xs (h(x \<mapsto> n'), snd (snd (mp3_get_cpu_use (ts3_pid n) ps)))
      (t1 + ts3_minor_pf n', t2 + ts3_major_pf n', t3 + (ts3_stime n' + ts3_utime n')) = Inr ((h', ps'), ts)"
    "dom h' = dom (h(x \<mapsto> n'))" "\<forall>a. map_option ts3_pid (h' a) = map_option ts3_pid ((h(x \<mapsto> n')) a)"
    by blast
  have "sample_loop (x # xs) (h, ps) tmps = Inr ((h', ps'), ts)"
    using * n by (simp add: t deref_def case_prod_unfold Let_def n'_def [symmetric])
  moreover have "dom h' = dom h" "\<forall>a. map_option ts3_pid (h' a) = map_option ts3_pid (h a)"
    using * n pid by auto
  ultimately show ?case by blast
next
  case Nil
  then show ?case by (cases tmps) auto
qed

lemma vm_stores_eq:
  "ptr + length vs \<le> length m \<Longrightarrow>
   vm_stores ptr vs m = Inr (take ptr m @ vs @ drop (ptr + length vs) m)"
proof (induction vs arbitrary: ptr m)
  case (Cons v vs)
  then have "vm_stores (Suc ptr) vs (m[ptr := v]) =
      Inr (take (Suc ptr) (m[ptr := v]) @ vs @ drop (Suc ptr + length vs) (m[ptr := v]))"
    by (intro Cons.IH) simp
  then show ?case
    using Cons.prems by (simp add: vm_store_def take_Suc_conv_app_nth list_update_append)
qed simp

lemma vm_sample_store:
  assumes "ptr + 4 < length m"
  shows "bindK (vm_stores ptr [v0, v1, v2, v3] m) (vm_store (ptr + 4) (- 1)) =
    Inr (take ptr m @ [v0, v1, v2, v3, - 1] @ drop (ptr + 5) m)"
proof -
  have "drop (ptr + 4) m = m ! (ptr + 4) # drop (ptr + 5) m"
    using assms Cons_nth_drop_Suc [of "ptr + 4" m] by (simp add: numeral_eq_Suc)
  moreover have "vm_stores ptr [v0, v1, v2, v3] m = Inr (take ptr m @ [v0, v1, v2, v3] @ drop (ptr + 4) m)"
    using assms vm_stores_eq [of ptr "[v0, v1, v2, v3]" m] by (simp del: vm_stores.simps add: numeral_eq_Suc)
  ultimately show ?thesis
    using assms by (simp del: vm_stores.simps add: vm_store_def list_update_append)
qed

text \<open>The work as a whole: where the sample goes and what is left.\<close>

lemma workqueue_body_eq:
  assumes "\<not> lock s" and "sample_loop (mp3_HEAD s) (heap s, procs s) (0, 0, 0) = Inr ((h, ps), t1, t2, t3)"
    and "unat (vm_offset s) + 4 < length (vm s)" and "length (vm s) \<le> vm_elements"
  shows "workqueue_body j s = Inr (s\<lparr>heap := h, procs := ps,
    vm := take (unat (vm_offset s)) (vm s) @ [j, t1, t2, t3, - 1] @ drop (unat (vm_offset s) + 5) (vm s),
    vm_offset := vm_offset s + 4, pending := True, running := False\<rparr>)"
proof -
  have "unat (vm_offset s + 4) = unat (vm_offset s) + 4"
    using assms(3,4) by (subst unat_add_fits) (simp_all add: vm_elements_def VM_SIZE_def)
  then have "\<not> VM_ELEMENT_SIZE \<le> vm_offset s + 4"
    using assms(3,4) by (simp add: word_le_nat_alt vm_elements_def VM_SIZE_def VM_ELEMENT_SIZE_def)
  then show ?thesis
    using assms vm_sample_store [OF assms(3), of j t1 t2 t3]
    by (auto simp: workqueue_body_def spin_lock_def spin_unlock_def queue_delayed_work_def kres_simps Let_def)
qed

text \<open>The terminator of the last sample that fits falls behind the end of the buffer.\<close>

lemma workqueue_body_overflow:
  assumes "\<not> lock s" and "set (mp3_HEAD s) \<subseteq> dom (heap s)" and "length (vm s) = vm_elements"
    and "unat (vm_offset s) + 4 = vm_elements"
  shows "workqueue_body j s = Inl OutOfBounds"
proof -
  obtain h ps t1 t2 t3 where loop: "sample_loop (mp3_HEAD s) (heap s, procs s) (0, 0, 0) = Inr ((h, ps), t1, t2, t3)"
    using sample_loop_total [OF assms(2)] by (metis prod.collapse)
  have "unat (vm_offset s + 4) = unat (vm_offset s) + 4"
    using assms(4) by (subst unat_add_fits) (simp_all add: vm_elements_def VM_SIZE_def)
  then have "\<not> VM_ELEMENT_SIZE \<le> vm_offset s + 4"
    using assms(4) by (simp add: word_le_nat_alt vm_elements_def VM_SIZE_def VM_ELEMENT_SIZE_def)
  then show ?thesis
    using assms loop
    by (simp add: workqueue_body_def spin_lock_def vm_stores_eq vm_store_def Let_def)
qed

section \<open>The profiler as a transition system\<close>

text \<open>
  The events: requests to register and to unregister (with the result of \<open>kmalloc\<close>), the worker
  entering the callback and running the rest of it, a store of a user program to the mapped buffer,
  and any change of the process table (processes start, fault, run and end).
\<close>

datatype mp3_event =
    Register "addr option" mp3_task_struct u32
  | Unregister u32
  | WorkEnter
  | WorkBody u64
  | UserStore nat u64
  | Processes "u32 \<rightharpoonup> proc_stat"

inductive mp3_trans :: "mp3 \<Rightarrow> mp3_event \<Rightarrow> mp3 \<Rightarrow> bool" where
  register: "(\<forall>a. k = Some a \<longrightarrow> heap s a = None) \<Longrightarrow> mp3_reg_entry k junk pid s = Inr (r, t) \<Longrightarrow>
    mp3_trans s (Register k junk pid) t"
| unregister: "mp3_unreg_entry pid s = Inr (r, t) \<Longrightarrow> mp3_trans s (Unregister pid) t"
| work_enter: "pending s \<Longrightarrow> \<not> running s \<Longrightarrow> mp3_trans s WorkEnter (workqueue_enter s)"
| work_body: "running s \<Longrightarrow> workqueue_body j s = Inr t \<Longrightarrow> mp3_trans s (WorkBody j) t"
| user_store: "i < length (vm s) \<Longrightarrow> mp3_trans s (UserStore i v) (s\<lparr>vm := (vm s)[i := v]\<rparr>)"
| processes: "mp3_trans s (Processes ps) (s\<lparr>procs := ps\<rparr>)"

definition mp3_loaded :: "mp3 \<Rightarrow> bool" where
  "mp3_loaded s = (\<exists>ps mem. length mem = vm_elements \<and> s = mp3_start_state ps mem)"

definition mp3_inv :: "mp3 \<Rightarrow> bool" where
  "mp3_inv s =
     (mp3_linked s \<and> length (vm s) = vm_elements
      \<and> 4 dvd unat (vm_offset s) \<and> unat (vm_offset s) < vm_elements \<and> \<not> BUFFER_FILLED_UP s
      \<and> (if mp3_HEAD s = [] then \<not> pending s \<and> \<not> running s \<and> vm_offset s = 0 else pending s \<noteq> running s)
      \<and> (lock s \<longrightarrow> UnregNotFound \<in> set (alerts s)))"

lemma reg_entry_eq:
  "mp3_reg_entry k junk pid s =
     (case k of None \<Rightarrow> Inl NullDeref
      | Some a \<Rightarrow>
          if procs s pid = None then Inr (1, s\<lparr>heap := (heap s)(a \<mapsto> junk\<lparr>ts3_pid := pid\<rparr>)\<rparr>)
          else if lock s then Inl Deadlock
          else Inr (0, link_node a (junk\<lparr>ts3_pid := pid\<rparr>)
            (if mp3_HEAD s = [] then s\<lparr>pending := True, alerts := alerts s @ [QueueWorkFailed]\<rparr> else s)))"
  by (cases s) (auto simp: mp3_reg_entry_def mp3_find_task_by_pid_def Let_def spin_lock_def list_empty_def
      start_work_def queue_delayed_work_def printk_alert_def spin_unlock_def link_node_def split: option.split)

lemma unreg_entry_eq:
  "mp3_unreg_entry pid s =
     (if lock s then Inl Deadlock
      else bindK (get_by_pid s pid) (\<lambda>task. case task of
          None \<Rightarrow> Inr (0, s\<lparr>lock := True, alerts := alerts s @ [UnregNotFound]\<rparr>)
        | Some a \<Rightarrow>
            if remove1 a (mp3_HEAD s) = []
            then if running s then Inl Deadlock else Inr (0, unlink_node a (s\<lparr>vm_offset := 0, pending := False\<rparr>))
            else Inr (0, unlink_node a s)))"
proof -
  have same: "get_by_pid (s\<lparr>lock := True\<rparr>) pid = get_by_pid s pid" by (simp add: get_by_pid_def)
  show ?thesis
  proof (cases "get_by_pid s pid")
    case (Inr task)
    then show ?thesis
      using same
      by (cases task)
        (auto simp: mp3_unreg_entry_def spin_lock_def list_empty_def list_del_def
          cancel_delayed_work_sync_def printk_alert_def spin_unlock_def unlink_node_def intro: mp3.equality)
  qed (simp add: mp3_unreg_entry_def spin_lock_def same)
qed

lemma inv_register:
  assumes inv: "mp3_inv s" and fresh: "\<forall>a. k = Some a \<longrightarrow> heap s a = None"
    and reg: "mp3_reg_entry k junk pid s = Inr (r, t)"
  shows "mp3_inv t"
proof -
  obtain a where a: "k = Some a" using reg by (cases k) (auto simp: reg_entry_eq)
  then have fr: "heap s a = None" using fresh by simp
  have link: "mp3_linked (link_node a n s)" for n
    using inv fr by (auto simp: mp3_inv_def mp3_linked_def link_node_def list_add_tail_def)
  show ?thesis
    using reg inv link a
    by (auto simp: reg_entry_eq mp3_inv_def mp3_linked_def link_node_def list_add_tail_def split: if_splits)
qed

lemma inv_unregister:
  assumes inv: "mp3_inv s" and unreg: "mp3_unreg_entry pid s = Inr (r, t)"
  shows "mp3_inv t"
proof (cases "get_by_pid s pid")
  case (Inr task)
  have linked: "mp3_linked s" using inv by (simp add: mp3_inv_def)
  show ?thesis
  proof (cases task)
    case None
    then show ?thesis
      using unreg inv Inr by (auto simp: unreg_entry_eq mp3_inv_def mp3_linked_def split: if_splits)
  next
    case (Some a)
    have ul: "mp3_linked (unlink_node a s)" using linked by (rule profiled.invar_del)
    have off: "(0 :: nat) < vm_elements" by (simp add: vm_elements_def VM_SIZE_def)
    have "a \<in> set (mp3_HEAD s)" using profiled.lookup_some [OF linked] Inr Some by blast
    then have "mp3_HEAD s \<noteq> []" by auto
    then show ?thesis
      using unreg inv Inr Some ul off
      by (auto simp: unreg_entry_eq mp3_inv_def mp3_linked_def unlink_node_def list_del_def split: if_splits)
  qed
qed (use unreg in \<open>simp add: unreg_entry_eq split: if_splits\<close>)

lemma body_cases:
  assumes inv: "mp3_inv s" and free: "\<not> lock s"
  obtains "unat (vm_offset s) + 4 = vm_elements" "workqueue_body j s = Inl OutOfBounds"
  | h ps t1 t2 t3 where "unat (vm_offset s) + 4 < vm_elements"
      "sample_loop (mp3_HEAD s) (heap s, procs s) (0, 0, 0) = Inr ((h, ps), t1, t2, t3)"
      "dom h = dom (heap s)" "\<forall>a. map_option ts3_pid (h a) = map_option ts3_pid (heap s a)"
      "workqueue_body j s = Inr (s\<lparr>heap := h, procs := ps,
        vm := take (unat (vm_offset s)) (vm s) @ [j, t1, t2, t3, - 1] @ drop (unat (vm_offset s) + 5) (vm s),
        vm_offset := vm_offset s + 4, pending := True, running := False\<rparr>)"
proof (cases "unat (vm_offset s) + 4 = vm_elements")
  case True
  then show ?thesis
    using that(1) workqueue_body_overflow [of s j] inv free by (simp add: mp3_inv_def mp3_linked_def)
next
  case False
  obtain q where q: "unat (vm_offset s) = 4 * q" "4 * q < vm_elements" using inv by (auto simp: mp3_inv_def)
  moreover have "vm_elements = 4 * 16000" by (simp add: vm_elements_def VM_SIZE_def)
  ultimately have less: "unat (vm_offset s) + 4 < vm_elements" using False by presburger
  have "set (mp3_HEAD s) \<subseteq> dom (heap s)" using inv by (simp add: mp3_inv_def mp3_linked_def)
  from sample_loop_total [OF this, of "procs s" "(0, 0, 0)"]
  obtain h ps ts where loop: "sample_loop (mp3_HEAD s) (heap s, procs s) (0, 0, 0) = Inr ((h, ps), ts)"
    "dom h = dom (heap s)" "\<forall>a. map_option ts3_pid (h a) = map_option ts3_pid (heap s a)" by blast
  obtain t1 t2 t3 where ts: "ts = (t1, t2, t3)" by (cases ts) auto
  show ?thesis
    using that(2) [OF less loop(1) [unfolded ts] loop(2,3)] workqueue_body_eq [OF free loop(1) [unfolded ts], of j]
      less inv by (simp add: mp3_inv_def)
qed

lemma inv_body:
  assumes inv: "mp3_inv s" and run: "running s" and body: "workqueue_body j s = Inr t"
  shows "mp3_inv t"
proof -
  have free: "\<not> lock s" using body by (auto simp: workqueue_body_def spin_lock_def)
  have ne: "mp3_HEAD s \<noteq> []" using inv run by (auto simp: mp3_inv_def)
  show ?thesis
  proof (rule body_cases [OF inv free, of j])
    fix h ps t1 t2 t3
    assume less: "unat (vm_offset s) + 4 < vm_elements" and dom: "dom h = dom (heap s)"
      and t: "workqueue_body j s = Inr (s\<lparr>heap := h, procs := ps,
        vm := take (unat (vm_offset s)) (vm s) @ [j, t1, t2, t3, - 1] @ drop (unat (vm_offset s) + 5) (vm s),
        vm_offset := vm_offset s + 4, pending := True, running := False\<rparr>)"
    have off: "unat (vm_offset s + 4) = unat (vm_offset s) + 4"
      using less by (subst unat_add_fits) (simp_all add: vm_elements_def VM_SIZE_def)
    show ?thesis
      using t body inv less dom free ne
      by (auto simp: mp3_inv_def mp3_linked_def off)
  qed (use body in simp)
qed

lemma mp3_inv_step:
  assumes "mp3_inv s" and "mp3_trans s l t"
  shows "mp3_inv t"
  using assms(2)
proof cases
  case register
  then show ?thesis using inv_register assms(1) by blast
next
  case unregister
  then show ?thesis using inv_unregister assms(1) by blast
next
  case work_enter
  then show ?thesis
    using assms(1) by (auto simp: workqueue_enter_def Let_def mp3_inv_def mp3_linked_def)
next
  case work_body
  then show ?thesis using inv_body assms(1) by blast
qed (use assms(1) in \<open>auto simp: mp3_inv_def mp3_linked_def\<close>)

interpretation profiler: safety_system mp3_trans mp3_loaded mp3_inv
proof unfold_locales
  fix s assume "mp3_loaded s"
  then show "mp3_inv s"
    by (auto simp: mp3_loaded_def mp3_start_state_def mp3_inv_def mp3_linked_def vm_elements_def VM_SIZE_def)
qed (rule mp3_inv_step)

section \<open>Samples over time\<close>

text \<open>
  Between two samples the counters of the processes grow: \<open>grow\<close> adds what a process has gained.
  \<open>samples\<close> runs the loop of the work after each growth and keeps the sums.
\<close>

definition grow :: "(u32 \<Rightarrow> proc_stat) \<Rightarrow> (u32 \<rightharpoonup> proc_stat) \<Rightarrow> u32 \<rightharpoonup> proc_stat" where
  "grow d ps = (\<lambda>p. map_option (\<lambda>v. \<lparr>min_flt = min_flt v + min_flt (d p), maj_flt = maj_flt v + maj_flt (d p),
      p_utime = p_utime v + p_utime (d p), p_stime = p_stime v + p_stime (d p)\<rparr>) (ps p))"

fun samples :: "addr list \<Rightarrow> (addr \<rightharpoonup> mp3_task_struct) \<Rightarrow> (u32 \<rightharpoonup> proc_stat) \<Rightarrow> (u32 \<Rightarrow> proc_stat) list
   \<Rightarrow> (u64 \<times> u64 \<times> u64) list kres" where
  "samples xs h ps [] = Inr []"
| "samples xs h ps (d # ds) =
     bindK (sample_loop xs (h, grow d ps) (0, 0, 0)) (\<lambda>((h', ps'), tmps).
       bindK (samples xs h' ps' ds) (\<lambda>rest. Inr (tmps # rest)))"

lemma stat_sum_grow:
  assumes "P \<subseteq> dom ps" and "f \<in> {min_flt, maj_flt, cpu_time}"
  shows "stat_sum f (grow d ps) P = stat_sum f ps P + (\<Sum>p \<in> P. f (d p))"
proof -
  have "f (the (grow d ps p)) = f (the (ps p)) + f (d p)" if p: "p \<in> P" for p
  proof -
    obtain v where "ps p = Some v" using assms(1) p by blast
    then show ?thesis using assms(2) by (auto simp: grow_def cpu_time_def)
  qed
  then show ?thesis by (simp add: stat_sum_def sum.distrib)
qed

lemma dom_grow [simp]: "dom (grow d ps) = dom ps"
  by (auto simp: grow_def)

lemma pids_of_cong:
  assumes "\<forall>a. map_option ts3_pid (h' a) = map_option ts3_pid (h a)" and "set xs \<subseteq> dom h"
  shows "pids_of h' xs = pids_of h xs"
  unfolding pids_of_def
proof (rule image_cong)
  fix a assume "a \<in> set xs"
  then obtain n where n: "h a = Some n" using assms(2) by blast
  then have "map_option ts3_pid (h' a) = Some (ts3_pid n)" using assms(1) by simp
  then show "ts3_pid (the (h' a)) = ts3_pid (the (h a))" using n by auto
qed simp

lemma samples_conserve:
  assumes "set xs \<subseteq> dom h" and "pids_of h xs \<subseteq> dom ps" and "ds \<noteq> []"
  shows "\<exists>ts. samples xs h ps ds = Inr ts \<and> length ts = length ds
    \<and> sum_list (map fst ts) = stat_sum min_flt ps (pids_of h xs) + sum_list (map (\<lambda>d. \<Sum>p \<in> pids_of h xs. min_flt (d p)) ds)
    \<and> sum_list (map (\<lambda>t. fst (snd t)) ts) = stat_sum maj_flt ps (pids_of h xs) + sum_list (map (\<lambda>d. \<Sum>p \<in> pids_of h xs. maj_flt (d p)) ds)
    \<and> sum_list (map (\<lambda>t. snd (snd t)) ts) = stat_sum cpu_time ps (pids_of h xs) + sum_list (map (\<lambda>d. \<Sum>p \<in> pids_of h xs. cpu_time (d p)) ds)"
  using assms
proof (induction ds arbitrary: h ps)
  case (Cons d ds)
  define P where "P = pids_of h xs"
  have Pd: "P \<subseteq> dom (grow d ps)" using Cons.prems by (simp add: P_def)
  obtain h' where h': "sample_loop xs (h, grow d ps) (0, 0, 0) =
      Inr ((h', reset_stats P (grow d ps)), stat_sum min_flt (grow d ps) P, stat_sum maj_flt (grow d ps) P,
        stat_sum cpu_time (grow d ps) P)"
    "dom h' = dom h" "\<forall>a. map_option ts3_pid (h' a) = map_option ts3_pid (h a)"
    using sample_loop_alive [OF Cons.prems(1) Pd [unfolded P_def], of 0 0 0] by (auto simp: P_def)
  have P': "pids_of h' xs = P" using pids_of_cong [OF h'(3) Cons.prems(1)] by (simp add: P_def)
  have g: "stat_sum f (grow d ps) P = stat_sum f ps P + (\<Sum>p \<in> P. f (d p))" if "f \<in> {min_flt, maj_flt, cpu_time}" for f
    using stat_sum_grow [OF _ that] Pd by simp
  show ?case
  proof (cases "ds = []")
    case True
    then show ?thesis using h' g by (simp add: P_def)
  next
    case False
    have "set xs \<subseteq> dom h'" "pids_of h' xs \<subseteq> dom (reset_stats P (grow d ps))"
      using Cons.prems h' P' by (auto simp: reset_stats_def)
    from Cons.IH [OF this False] show ?thesis
      using h'(1) g unfolding P' P_def [symmetric]
      by (auto simp: stat_sum_no_stat add.assoc)
  qed
qed simp

section \<open>Filling the buffer\<close>

lemma next_sample:
  assumes inv: "mp3_inv s" and free: "\<not> lock s" and run: "running s" and room: "unat (vm_offset s) + 4 < vm_elements"
  shows "\<exists>t. runs mp3_trans s [WorkBody j, WorkEnter] t \<and> \<not> lock t \<and> running t
    \<and> unat (vm_offset t) = unat (vm_offset s) + 4"
proof (rule body_cases [OF inv free, of j])
  fix h ps t1 t2 t3
  let ?u = "s\<lparr>heap := h, procs := ps,
        vm := take (unat (vm_offset s)) (vm s) @ [j, t1, t2, t3, - 1] @ drop (unat (vm_offset s) + 5) (vm s),
        vm_offset := vm_offset s + 4, pending := True, running := False\<rparr>"
  assume "workqueue_body j s = Inr ?u"
  then have "runs mp3_trans s [WorkBody j] ?u" using run by (intro runs_one work_body)
  moreover have "mp3_trans ?u WorkEnter (workqueue_enter ?u)" by (rule work_enter) simp_all
  ultimately have "runs mp3_trans s [WorkBody j, WorkEnter] (workqueue_enter ?u)"
    using runs_step [of mp3_trans s "[WorkBody j]"] by simp
  moreover have "unat (vm_offset s + 4) = unat (vm_offset s) + 4"
    using room by (subst unat_add_fits) (simp_all add: vm_elements_def VM_SIZE_def)
  moreover have "\<not> BUFFER_FILLED_UP s" using inv by (simp add: mp3_inv_def)
  ultimately show ?thesis using free by (auto simp: workqueue_enter_def Let_def)
qed (use room in simp)

lemma many_samples:
  assumes "mp3_inv s" and "\<not> lock s" and "running s" and "unat (vm_offset s) = 4 * n" and "n + m < 16000"
  shows "\<exists>ls t. runs mp3_trans s ls t \<and> mp3_inv t \<and> \<not> lock t \<and> running t \<and> unat (vm_offset t) = 4 * (n + m)"
  using assms(5)
proof (induction m)
  case 0
  then show ?case using assms by auto
next
  case (Suc m)
  then obtain ls t where t: "runs mp3_trans s ls t" "mp3_inv t" "\<not> lock t" "running t"
    "unat (vm_offset t) = 4 * (n + m)" by auto
  then have "unat (vm_offset t) + 4 < vm_elements" using Suc.prems by (simp add: vm_elements_def VM_SIZE_def)
  then obtain u where u: "runs mp3_trans t [WorkBody 0, WorkEnter] u" "\<not> lock u" "running u"
    "unat (vm_offset u) = unat (vm_offset t) + 4" using next_sample [OF t(2-4)] by meson
  have "mp3_inv u" by (rule profiler.run_keeps [OF u(1) t(2)])
  moreover have "runs mp3_trans s (ls @ [WorkBody 0, WorkEnter]) u" by (rule runs_append [OF u(1) t(1)])
  moreover have "unat (vm_offset u) = 4 * (n + Suc m)" using u(4) t(5) by simp
  ultimately show ?case using u(2,3) by blast
qed

section \<open>A concrete run\<close>

definition demo3_procs :: "u32 \<rightharpoonup> proc_stat" where
  "demo3_procs = [5 \<mapsto> \<lparr>min_flt = 30, maj_flt = 2, p_utime = 7, p_stime = 4\<rparr>]"

definition demo3_node :: mp3_task_struct where
  "demo3_node = \<lparr>ts3_minor_pf = 11, ts3_major_pf = 12, ts3_utime = 13, ts3_stime = 14, ts3_pid = 5\<rparr>"

definition demo3_start :: mp3 where
  "demo3_start = mp3_start_state demo3_procs (replicate vm_elements 0)"

definition demo3_reg :: mp3 where
  "demo3_reg = demo3_start\<lparr>mp3_HEAD := [100], heap := [100 \<mapsto> demo3_node], pending := True, alerts := [QueueWorkFailed]\<rparr>"

definition demo3_run :: mp3 where
  "demo3_run = demo3_reg\<lparr>pending := False, running := True\<rparr>"

lemma demo3_loaded: "mp3_loaded demo3_start"
  unfolding mp3_loaded_def demo3_start_def
  by (intro exI [of _ demo3_procs] exI [of _ "replicate vm_elements 0"]) simp

lemmas demo3_defs = demo3_start_def demo3_reg_def demo3_run_def mp3_start_state_def

lemma demo3_reg_step: "runs mp3_trans demo3_start [Register (Some 100) demo3_node 5] demo3_reg"
  by (rule runs_one, rule register [where r = 0])
    (simp_all add: reg_entry_eq link_node_def list_add_tail_def demo3_defs, simp add: demo3_procs_def demo3_node_def)

lemma demo3_run_step: "runs mp3_trans demo3_start [Register (Some 100) demo3_node 5, WorkEnter] demo3_run"
proof -
  have "mp3_trans demo3_reg WorkEnter (workqueue_enter demo3_reg)"
    by (rule work_enter) (simp_all add: demo3_defs)
  moreover have "workqueue_enter demo3_reg = demo3_run" by (simp add: workqueue_enter_def demo3_defs)
  ultimately show ?thesis using runs_step [OF demo3_reg_step] by simp
qed

section \<open>Ended processes\<close>

definition stored_sum :: "(mp3_task_struct \<Rightarrow> u64) \<Rightarrow> (addr \<rightharpoonup> mp3_task_struct) \<Rightarrow> addr list \<Rightarrow> u64" where
  "stored_sum f h xs = sum_list (map (\<lambda>a. f (the (h a))) xs)"

lemma sample_loop_dead:
  assumes "set xs \<subseteq> dom h" and "pids_of h xs \<inter> dom ps = {}"
  shows "sample_loop xs (h, ps) (t1, t2, t3) = Inr ((h, ps), t1 + stored_sum ts3_minor_pf h xs,
    t2 + stored_sum ts3_major_pf h xs, t3 + stored_sum (\<lambda>n. ts3_stime n + ts3_utime n) h xs)"
  using assms
proof (induction xs arbitrary: t1 t2 t3)
  case (Cons x xs)
  then obtain n where n: "h x = Some n" by auto
  then have "ps (ts3_pid n) = None" using Cons.prems(2) by (auto simp: pids_of_def)
  moreover have "pids_of h xs \<inter> dom ps = {}" using Cons.prems(2) by (auto simp: pids_of_def)
  ultimately show ?case
    using Cons.IH Cons.prems(1) n
    by (simp add: deref_def mp3_get_cpu_use_def mp3_find_task_by_pid_def map_upd_triv stored_sum_def add.assoc)
qed (simp add: stored_sum_def)

section \<open>Properties\<close>

text \<open>
  C8: In every state the profiler reaches, the list links allocated structs without repetition, the
  position in the buffer is a multiple of four inside it, the delayed work is queued or running (and
  not both) exactly while a process is registered, so that sampling neither stops nor doubles, an
  empty list has reset the position, and the lock is held between two handlers only after an
  unregistration of an unknown pid.  (The flag for a full buffer is never set.)\<close>
theorem profiler_states_well_formed:
  assumes "mp3_loaded s0" and "runs mp3_trans s0 ls s"
  shows "mp3_inv s"
  using profiler.run_inv [OF assms] .

theorem profiler_states_well_formed_witness: "mp3_inv demo3_run"
  using profiler_states_well_formed [OF demo3_loaded demo3_run_step] .

text \<open>
  C12: One run of the work on living processes stores the time, the minor faults, the major faults and the
  CPU time of all registered processes, each counted once even when it is registered twice, at the
  current position, ends the buffer with -1 behind them, resets the counters of exactly these
  processes, advances the position by four and queues the work again.\<close>
theorem work_stores_one_sample:
  assumes "mp3_loaded s0" and "runs mp3_trans s0 ls s" and "\<not> lock s"
    and "pids_of (heap s) (mp3_HEAD s) \<subseteq> dom (procs s)" and "unat (vm_offset s) + 4 < vm_elements"
  shows "\<exists>t. workqueue_body j s = Inr t
    \<and> vm t = take (unat (vm_offset s)) (vm s)
        @ [j, \<Sum>p \<in> pids_of (heap s) (mp3_HEAD s). min_flt (the (procs s p)),
              \<Sum>p \<in> pids_of (heap s) (mp3_HEAD s). maj_flt (the (procs s p)),
              \<Sum>p \<in> pids_of (heap s) (mp3_HEAD s). p_stime (the (procs s p)) + p_utime (the (procs s p)), - 1]
        @ drop (unat (vm_offset s) + 5) (vm s)
    \<and> procs t = (\<lambda>p. if p \<in> pids_of (heap s) (mp3_HEAD s) then Some no_stat else procs s p)
    \<and> vm_offset t = vm_offset s + 4 \<and> mp3_HEAD t = mp3_HEAD s
    \<and> pids_of (heap t) (mp3_HEAD t) = pids_of (heap s) (mp3_HEAD s) \<and> pending t \<and> \<not> running t \<and> \<not> lock t"
proof -
  have inv: "mp3_inv s" using profiler.run_inv [OF assms(1,2)] .
  have heads: "set (mp3_HEAD s) \<subseteq> dom (heap s)" and len: "length (vm s) = vm_elements"
    using inv by (simp_all add: mp3_inv_def mp3_linked_def)
  from sample_loop_alive [OF heads assms(4), of 0 0 0]
  obtain h where loop: "sample_loop (mp3_HEAD s) (heap s, procs s) (0, 0, 0) =
      Inr ((h, reset_stats (pids_of (heap s) (mp3_HEAD s)) (procs s)),
        stat_sum min_flt (procs s) (pids_of (heap s) (mp3_HEAD s)),
        stat_sum maj_flt (procs s) (pids_of (heap s) (mp3_HEAD s)),
        stat_sum cpu_time (procs s) (pids_of (heap s) (mp3_HEAD s)))"
    and pids: "\<forall>a. map_option ts3_pid (h a) = map_option ts3_pid (heap s a)" by auto
  show ?thesis
    using workqueue_body_eq [OF assms(3) loop] assms(3,5) len pids_of_cong [OF pids heads]
    by (simp add: stat_sum_def cpu_time_def reset_stats_def)
qed

theorem work_stores_one_sample_witness:
  "\<exists>t. workqueue_body 1000 demo3_run = Inr t \<and> take 5 (vm t) = [1000, 30, 2, 11, - 1]
     \<and> procs t 5 = Some no_stat"
proof -
  have p: "pids_of (heap demo3_run) (mp3_HEAD demo3_run) = {5}"
    by (simp add: pids_of_def demo3_defs demo3_node_def)
  then have "pids_of (heap demo3_run) (mp3_HEAD demo3_run) \<subseteq> dom (procs demo3_run)"
    by (simp add: demo3_defs demo3_procs_def)
  moreover have s: "vm_offset demo3_run = 0" "\<not> lock demo3_run" "procs demo3_run = demo3_procs"
    by (simp_all add: demo3_defs)
  ultimately show ?thesis
    using work_stores_one_sample [OF demo3_loaded demo3_run_step, of 1000] unfolding p
    by (auto simp: s demo3_procs_def vm_elements_def VM_SIZE_def)
qed

text \<open>
  C27: Nothing is lost and nothing counted twice between samples.  The loop of the work that forms the
  sums, run over any sequence of samples of living registered processes: whatever they gain in
  between, the sums of minor faults, major faults and CPU times add up to what the processes had at the start and gained since.\<close>
theorem samples_add_up:
  assumes "set xs \<subseteq> dom h" and "pids_of h xs \<subseteq> dom ps" and "ds \<noteq> []"
  shows "\<exists>ts. samples xs h ps ds = Inr ts \<and> length ts = length ds
    \<and> sum_list (map fst ts) = (\<Sum>p \<in> pids_of h xs. min_flt (the (ps p))) + sum_list (map (\<lambda>d. \<Sum>p \<in> pids_of h xs. min_flt (d p)) ds)
    \<and> sum_list (map (\<lambda>t. fst (snd t)) ts) = (\<Sum>p \<in> pids_of h xs. maj_flt (the (ps p))) + sum_list (map (\<lambda>d. \<Sum>p \<in> pids_of h xs. maj_flt (d p)) ds)
    \<and> sum_list (map (\<lambda>t. snd (snd t)) ts) = (\<Sum>p \<in> pids_of h xs. cpu_time (the (ps p))) + sum_list (map (\<lambda>d. \<Sum>p \<in> pids_of h xs. cpu_time (d p)) ds)"
  using samples_conserve [OF assms] unfolding stat_sum_def .

theorem samples_add_up_witness:
  "\<exists>ts. samples [100] [100 \<mapsto> demo3_node] demo3_procs [\<lambda>_. no_stat, \<lambda>_. no_stat] = Inr ts
     \<and> sum_list (map fst ts) = 30"
proof -
  have p: "pids_of [100 \<mapsto> demo3_node] [100] = {5}" by (simp add: pids_of_def demo3_node_def)
  then have "pids_of [100 \<mapsto> demo3_node] [100] \<subseteq> dom demo3_procs" by (simp add: demo3_procs_def)
  from samples_add_up [OF _ this, of "[\<lambda>_. no_stat, \<lambda>_. no_stat]"] show ?thesis
    unfolding p by (auto simp: demo3_procs_def)
qed

text \<open>
  C34: The buffer overflows: \<open>VM_ELEMENT_SIZE\<close> counts 128000 elements, twice as many as 512000 bytes hold with 8
  byte longs, so from every loaded module with one living process the work reaches, after 15999
  samples, a state in which its next run stores the end mark behind the allocated memory, while the
  flag for a full buffer is still clear.\<close>
theorem buffer_overflow_is_reachable:
  assumes "mp3_loaded s0" and "procs s0 pid = Some v"
  shows "\<exists>ls s. runs mp3_trans s0 ls s \<and> running s \<and> unat (vm_offset s) = 4 * 15999
    \<and> \<not> BUFFER_FILLED_UP s \<and> (\<forall>j. workqueue_body j s = Inl OutOfBounds)"
proof -
  obtain ps mem where s0: "s0 = mp3_start_state ps mem" using assms(1) by (auto simp: mp3_loaded_def)
  define s1 where "s1 = link_node 100 (demo3_node\<lparr>ts3_pid := pid\<rparr>) (s0\<lparr>pending := True, alerts := [QueueWorkFailed]\<rparr>)"
  have "mp3_trans s0 (Register (Some 100) demo3_node pid) s1"
    using assms(2)
    by (intro register [where r = 0]) (simp_all add: s0 s1_def reg_entry_eq mp3_start_state_def)
  moreover have "mp3_trans s1 WorkEnter (workqueue_enter s1)"
    by (rule work_enter) (simp_all add: s1_def s0 link_node_def mp3_start_state_def)
  ultimately have r1: "runs mp3_trans s0 [Register (Some 100) demo3_node pid, WorkEnter] (workqueue_enter s1)"
    by (rule runs_two)
  have "mp3_inv (workqueue_enter s1)" by (rule profiler.run_inv [OF assms(1) r1])
  moreover have "\<not> lock (workqueue_enter s1)" "running (workqueue_enter s1)" "unat (vm_offset (workqueue_enter s1)) = 4 * 0"
    by (simp_all add: workqueue_enter_def s1_def s0 link_node_def mp3_start_state_def)
  ultimately obtain ls s where s: "runs mp3_trans (workqueue_enter s1) ls s" "mp3_inv s" "\<not> lock s" "running s"
    "unat (vm_offset s) = 4 * (0 + 15999)" using many_samples [of "workqueue_enter s1" 0 15999] by auto
  have "set (mp3_HEAD s) \<subseteq> dom (heap s)" "length (vm s) = vm_elements" "\<not> BUFFER_FILLED_UP s"
    using s(2) by (simp_all add: mp3_inv_def mp3_linked_def)
  moreover have "unat (vm_offset s) + 4 = vm_elements" using s(5) by (simp add: vm_elements_def VM_SIZE_def)
  ultimately show ?thesis
    using runs_append [OF s(1) r1] s(3-5) workqueue_body_overflow [of s] unfolding add_0 by metis
qed

theorem buffer_overflow_is_reachable_witness:
  "\<exists>ls s. runs mp3_trans demo3_start ls s \<and> running s \<and> unat (vm_offset s) = 4 * 15999
     \<and> \<not> BUFFER_FILLED_UP s \<and> (\<forall>j. workqueue_body j s = Inl OutOfBounds)"
  by (rule buffer_overflow_is_reachable [OF demo3_loaded, of 5]) (simp add: demo3_defs demo3_procs_def)

text \<open>
  C35: Unregistering a pid that is not registered returns with the spin lock held: from then on every
  registration of an existing process, every unregistration, the next run of the work and the
  unloading of the module spin forever.\<close>
theorem unknown_unregister_locks_up:
  assumes "mp3_loaded s0" and "runs mp3_trans s0 ls s" and "\<not> lock s" and "get_by_pid s pid = Inr None"
  shows "\<exists>t. mp3_unreg_entry pid s = Inr (0, t)
    \<and> (\<forall>k. mp3_unreg_entry k t = Inl Deadlock)
    \<and> (\<forall>a junk k. procs t k \<noteq> None \<longrightarrow> mp3_reg_entry (Some a) junk k t = Inl Deadlock)
    \<and> (\<forall>j. workqueue_body j t = Inl Deadlock) \<and> mp3_exit t = Inl Deadlock"
  using assms(3,4)
  by (simp add: unreg_entry_eq reg_entry_eq workqueue_body_def mp3_exit_def spin_lock_def)

theorem unknown_unregister_locks_up_witness:
  "\<exists>t. mp3_unreg_entry 9 demo3_start = Inr (0, t) \<and> mp3_exit t = Inl Deadlock"
proof -
  have "get_by_pid demo3_start 9 = Inr None"
    by (simp add: get_by_pid_def list_empty_def demo3_defs)
  from unknown_unregister_locks_up [OF demo3_loaded runs_nil _ this] show ?thesis
    by (auto simp: demo3_defs)
qed

text \<open>
  C26: On a reachable state with a free lock, registering an existing process that is not registered makes
  it, and nothing else, known; unregistering it again, when the work is not just running, frees its
  struct and restores the list, the store and the set of registered processes.  After the last
  process has gone the work is cancelled and the position in the buffer is zero.\<close>
theorem profile_register_unregister:
  assumes "mp3_loaded s0" and "runs mp3_trans s0 ls s" and "\<not> lock s"
    and "procs s pid \<noteq> None" and "heap s a = None" and "get_by_pid s pid = Inr None" and "\<not> running s"
  shows "\<exists>t u. mp3_reg_entry (Some a) junk pid s = Inr (0, t)
    \<and> (\<forall>k. get_by_pid t k = (if k = pid then Inr (Some a) else get_by_pid s k)) \<and> pending t
    \<and> mp3_unreg_entry pid t = Inr (0, u) \<and> mp3_HEAD u = mp3_HEAD s \<and> heap u = heap s
    \<and> (\<forall>k. get_by_pid u k = get_by_pid s k)
    \<and> (mp3_HEAD u = [] \<longrightarrow> \<not> pending u \<and> vm_offset u = 0)"
proof -
  have inv: "mp3_inv s" using profiler.run_inv [OF assms(1,2)] .
  define s1 where "s1 = (if mp3_HEAD s = [] then s\<lparr>pending := True, alerts := alerts s @ [QueueWorkFailed]\<rparr> else s)"
  define t where "t = link_node a (junk\<lparr>ts3_pid := pid\<rparr>) s1"
  have s1: "mp3_HEAD s1 = mp3_HEAD s" "heap s1 = heap s" by (simp_all add: s1_def)
  have look: "get_by_pid s1 k = get_by_pid s k" for k by (simp add: get_by_pid_def s1)
  have l1: "mp3_linked s1" and fresh: "mp3_key s1 a = None"
    using inv assms(5) by (auto simp: mp3_inv_def mp3_linked_def mp3_key_def s1)
  have reg: "mp3_reg_entry (Some a) junk pid s = Inr (0, t)"
    using assms(3,4) by (simp add: reg_entry_eq t_def s1_def)
  have lt: "mp3_linked t" unfolding t_def by (rule profiled.invar_add [OF l1 fresh])
  have lookt: "get_by_pid t k = (if k = pid then Inr (Some a) else get_by_pid s k)" for k
    using profiled.lookup_add [where junk = junk, OF l1 fresh, of pid k] profiled.lookup_none [OF l1] assms(6)
    unfolding t_def look by metis
  have lists: "remove1 a (mp3_HEAD t) = mp3_HEAD s" "heap t = (heap s)(a \<mapsto> junk\<lparr>ts3_pid := pid\<rparr>)" "\<not> lock t" "\<not> running t"
    using fresh inv assms(3,5,7)
    by (auto simp: t_def link_node_def list_add_tail_def s1_def remove1_append mp3_inv_def mp3_linked_def)
  have pend: "pending t" using inv assms(7) by (auto simp: t_def link_node_def s1_def mp3_inv_def)
  define u where "u = (if mp3_HEAD s = [] then unlink_node a (t\<lparr>vm_offset := 0, pending := False\<rparr>) else unlink_node a t)"
  have un: "mp3_unreg_entry pid t = Inr (0, u)"
    using lists lookt [of pid] by (simp add: unreg_entry_eq u_def)
  have "mp3_HEAD u = mp3_HEAD s" "heap u = heap s"
    using lists assms(5) by (auto simp: u_def unlink_node_def list_del_def fun_upd_idem)
  then show ?thesis
    using reg lookt pend un by (auto simp: get_by_pid_def u_def unlink_node_def)
qed

theorem profile_register_unregister_witness:
  "\<exists>t u. mp3_reg_entry (Some 100) demo3_node 5 demo3_start = Inr (0, t)
     \<and> mp3_unreg_entry 5 t = Inr (0, u) \<and> heap u = Map.empty"
proof -
  have "get_by_pid demo3_start 5 = Inr None" by (simp add: get_by_pid_def list_empty_def demo3_defs)
  from profile_register_unregister [OF demo3_loaded runs_nil _ _ _ this, of 100 demo3_node] show ?thesis
    by (auto simp: demo3_defs demo3_procs_def)
qed

text \<open>
  For registered processes that have ended, the work adds the numbers stored in their structs by the last
  successful reading (or whatever the freshly allocated struct held) again in every sample, because the
  result of \<open>get_cpu_use\<close> is not checked.\<close>
lemma ended_processes_are_counted_again:
  assumes "mp3_loaded s0" and "runs mp3_trans s0 ls s" and "\<not> lock s"
    and "pids_of (heap s) (mp3_HEAD s) \<inter> dom (procs s) = {}" and "unat (vm_offset s) + 4 < vm_elements"
  shows "\<exists>t. workqueue_body j s = Inr t \<and> heap t = heap s
    \<and> take 4 (drop (unat (vm_offset s)) (vm t)) =
        [j, stored_sum ts3_minor_pf (heap s) (mp3_HEAD s), stored_sum ts3_major_pf (heap s) (mp3_HEAD s),
            stored_sum (\<lambda>n. ts3_stime n + ts3_utime n) (heap s) (mp3_HEAD s)]"
proof -
  have inv: "mp3_inv s" using profiler.run_inv [OF assms(1,2)] .
  then have heads: "set (mp3_HEAD s) \<subseteq> dom (heap s)" and len: "length (vm s) = vm_elements"
    by (simp_all add: mp3_inv_def mp3_linked_def)
  show ?thesis
    using workqueue_body_eq [OF assms(3) sample_loop_dead [OF heads assms(4)], of j] len assms(5) by simp
qed

section \<open>Further facts\<close>

text \<open>
  Unregistering the last process while the worker has entered the callback: the handler holds the
  lock and waits for the callback, which waits for the lock.
\<close>

lemma last_unregister_deadlocks:
  assumes "\<not> lock s" and "running s" and "get_by_pid s pid = Inr (Some a)" and "remove1 a (mp3_HEAD s) = []"
  shows "mp3_unreg_entry pid s = Inl Deadlock"
  using assms by (simp add: unreg_entry_eq)

text \<open>Registering a process that does not exist leaves its struct allocated and unlinked, and unloading frees no struct.\<close>

lemma failed_registration_leaks:
  assumes "procs s pid = None"
  shows "\<exists>t. mp3_reg_entry (Some a) junk pid s = Inr (1, t) \<and> a \<in> dom (heap t) \<and> mp3_HEAD t = mp3_HEAD s"
  using assms by (simp add: reg_entry_eq)

lemma exit_leaks_structs: "mp3_exit s = Inr t \<Longrightarrow> heap t = heap s \<and> \<not> pending t \<and> vm t = []"
  by (auto simp: mp3_exit_def spin_lock_def cancel_delayed_work_sync_def spin_unlock_def kres_simps split: if_splits)

end
