(* ===== verification/MP3_User.thy ===== *)
theory MP3_User
  imports MP3_Correct "HOL-Library.Signed_Division"
begin

text \<open>
  The user side of the profiler: the requests of \<open>MP3/work.c\<close> as the module's \<open>mywrite\<close> parses
  them, the mapping of the buffer by \<open>mmap_callback\<close>, the memory accesses of \<open>MP3/work.c\<close>, and the
  pointer experiment \<open>MP3/test.c\<close>.
\<close>

section \<open>The pages of the buffer\<close>

lemma Collect_split_0:
  assumes "P 0"
  shows "{f j |j. P j} = insert (f 0) {f (Suc j) |j. P (Suc j)}"
proof (intro equalityI subsetI)
  fix y assume "y \<in> {f j |j. P j}"
  then obtain j where "y = f j" "P j" by blast
  then show "y \<in> insert (f 0) {f (Suc j) |j. P (Suc j)}" by (cases j) auto
qed (use assms in blast)

lemma mmap_loop_maps:
  assumes "\<And>i. to_pfn (base + i) \<noteq> 0" and "\<And>a p. \<not> fails a p"
  shows "\<exists>mapped. mmap_loop to_pfn fails shift base vm_start len i acc = (0, mapped)
    \<and> set mapped = set acc \<union> {(vm_start + (i + j * 2 ^ shift), to_pfn (base + (i + j * 2 ^ shift))) |j.
        i + j * 2 ^ shift < min VM_SIZE len}"
proof (induction "VM_SIZE - i" arbitrary: i acc rule: less_induct)
  case less
  show ?case
  proof (cases "i < VM_SIZE \<and> i < len")
    case True
    let ?f = "\<lambda>j. (vm_start + (i + j * 2 ^ shift), to_pfn (base + (i + j * 2 ^ shift)))"
    let ?P = "\<lambda>j. i + j * 2 ^ shift < min VM_SIZE len"
    have "VM_SIZE - (i + 2 ^ shift) < VM_SIZE - i" using True by (intro diff_less_mono2) auto
    from less [OF this, of "acc @ [(vm_start + i, to_pfn (base + i))]"]
    obtain mapped where m: "mmap_loop to_pfn fails shift base vm_start len (i + 2 ^ shift)
        (acc @ [(vm_start + i, to_pfn (base + i))]) = (0, mapped)"
      "set mapped = set acc \<union> {?f 0} \<union> {?f (Suc j) |j. ?P (Suc j)}"
      by (auto simp: algebra_simps)
    have "{?f j |j. ?P j} = insert (?f 0) {?f (Suc j) |j. ?P (Suc j)}"
      using True by (intro Collect_split_0) simp
    then have "set mapped = set acc \<union> {?f j |j. ?P j}" using m(2) by blast
    moreover have "mmap_loop to_pfn fails shift base vm_start len i acc = (0, mapped)"
      using True m(1) assms by (subst mmap_loop.simps) (simp add: Let_def)
    ultimately show ?thesis by blast
  next
    case False
    then have none: "{j. i + j * 2 ^ shift < min VM_SIZE len} = {}" by auto
    show ?thesis
      using False none by (subst mmap_loop.simps) auto
  qed
qed

text \<open>
  C28: When every page of the buffer has a frame and no remapping fails, \<open>mmap_callback\<close> succeeds and maps exactly
  the pages of the requested range that belong to the buffer: the byte at distance \<open>b\<close> from the
  start of the user's range lies in a page mapped to the frame of the buffer's byte \<open>b\<close>, for every
  \<open>b\<close> below the size of the buffer and of the range, and no page behind the buffer is mapped.\<close>
theorem mmap_maps_the_buffer:
  assumes "\<And>i. to_pfn (base + i) \<noteq> 0" and "\<And>a p. \<not> fails a p"
  shows "\<exists>mapped. mmap_callback to_pfn fails shift base vm_start vm_end = (0, mapped)
    \<and> set mapped = (\<lambda>b. (vm_start + b div 2 ^ shift * 2 ^ shift, to_pfn (base + b div 2 ^ shift * 2 ^ shift)))
        ` {..<min VM_SIZE (vm_end - vm_start)}"
proof -
  let ?N = "min VM_SIZE (vm_end - vm_start)"
  let ?g = "\<lambda>j. (vm_start + j * 2 ^ shift, to_pfn (base + j * 2 ^ shift))"
  have "(\<lambda>b. b div 2 ^ shift) ` {..<?N} = {j. j * 2 ^ shift < ?N}"
  proof (intro equalityI subsetI)
    fix j assume "j \<in> {j. j * 2 ^ shift < ?N}"
    then show "j \<in> (\<lambda>b. b div 2 ^ shift) ` {..<?N}" by (intro image_eqI [of _ _ "j * 2 ^ shift"]) auto
  qed (auto intro: le_less_trans [OF div_times_less_eq_dividend])
  then have "(\<lambda>b. ?g (b div 2 ^ shift)) ` {..<?N} = ?g ` {j. j * 2 ^ shift < ?N}"
    using image_image [of ?g "\<lambda>b. b div 2 ^ shift" "{..<?N}"] by argo
  moreover have "?g ` {j. j * 2 ^ shift < ?N} = {?g j |j. j * 2 ^ shift < ?N}" by (rule image_Collect)
  moreover obtain mapped where "mmap_callback to_pfn fails shift base vm_start vm_end = (0, mapped)"
    "set mapped = {?g j |j. j * 2 ^ shift < ?N}"
    using mmap_loop_maps [of to_pfn base fails shift vm_start "vm_end - vm_start" 0 "[]", OF assms]
    unfolding mmap_callback_def by (simp only: list.set(1) Un_empty_left add_0) blast
  ultimately show ?thesis by (intro exI [of _ mapped]) argo
qed

theorem mmap_maps_the_buffer_witness:
  "\<exists>mapped. mmap_callback Suc (\<lambda>_ _. False) 12 8192 65536 589824 = (0, mapped)
     \<and> (69632, 12289) \<in> set mapped"
proof -
  obtain mapped where m: "mmap_callback Suc (\<lambda>_ _. False) 12 8192 65536 589824 = (0, mapped)"
    "set mapped = (\<lambda>b. (65536 + b div 2 ^ 12 * 2 ^ 12, Suc (8192 + b div 2 ^ 12 * 2 ^ 12))) ` {..<min VM_SIZE (589824 - 65536)}"
    using mmap_maps_the_buffer [of Suc 8192 "\<lambda>_ _. False" 12 65536 589824] by auto
  have "(69632, 12289) \<in> set mapped"
    unfolding m(2) by (rule image_eqI [of _ _ 4096]) (simp_all add: VM_SIZE_def)
  then show ?thesis using m(1) by blast
qed

text \<open>Loading marks each page of the buffer reserved, once, and stops at a page that does not exist.\<close>

lemma reserve_loop_marks:
  assumes "\<And>i. to_page (base + i) = Some (pg i)"
  shows "\<exists>pages. reserve_loop to_page shift base i acc = Inr pages
    \<and> set pages = set acc \<union> {pg (i + j * 2 ^ shift) |j. i + j * 2 ^ shift < VM_SIZE}"
proof (induction "VM_SIZE - i" arbitrary: i acc rule: less_induct)
  case less
  show ?case
  proof (cases "i < VM_SIZE")
    case True
    let ?f = "\<lambda>j. pg (i + j * 2 ^ shift)" and ?P = "\<lambda>j. i + j * 2 ^ shift < VM_SIZE"
    have "VM_SIZE - (i + 2 ^ shift) < VM_SIZE - i" using True by (intro diff_less_mono2) auto
    from less [OF this, of "acc @ [pg i]"]
    obtain pages where m: "reserve_loop to_page shift base (i + 2 ^ shift) (acc @ [pg i]) = Inr pages"
      "set pages = set acc \<union> {?f 0} \<union> {?f (Suc j) |j. ?P (Suc j)}"
      by (auto simp: algebra_simps)
    have "{?f j |j. ?P j} = insert (?f 0) {?f (Suc j) |j. ?P (Suc j)}"
      using True by (intro Collect_split_0) simp
    then have "set pages = set acc \<union> {?f j |j. ?P j}" using m(2) by blast
    moreover have "reserve_loop to_page shift base i acc = Inr pages"
      using True m(1) assms by (subst reserve_loop.simps) simp
    ultimately show ?thesis by blast
  next
    case False
    then show ?thesis by (subst reserve_loop.simps) auto
  qed
qed

lemma vm_reserved_null: "to_page base = None \<Longrightarrow> vm_reserved to_page shift base = Inl NullDeref"
  unfolding vm_reserved_def by (subst reserve_loop.simps) (simp add: VM_SIZE_def)

section \<open>Requests\<close>

definition work_register :: "u32 \<Rightarrow> string" where
  "work_register mypid = ''R '' @ dec_nat (unat mypid) @ [newline]"

definition work_unregister :: "u32 \<Rightarrow> string" where
  "work_unregister mypid = ''U '' @ dec_nat (unat mypid) @ [newline]"

lemma request_arg:
  assumes "0 < sint (pid :: u32)"
  shows "kstrtoint_into (dec_nat (unat pid) @ [newline]) 0 = pid"
proof -
  have "sint pid < 2 ^ 32" using sint_lt [of pid] by simp
  then have "uint pid = sint pid" using assms by (simp add: uint_sint take_bit_int_eq_self)
  then have "sint pid = int (unat pid)" by simp
  then have "int (unat pid) < int (2 ^ 31)" using sint_lt [of pid] by simp
  then have "unat pid < 2 ^ 31" by (simp only: of_nat_less_iff)
  then show ?thesis by (simp add: kstrtoint_into_def kstrtoint_dec_nat)
qed

lemma strlen_request:
  assumes "NUL \<notin> set s"
  shows "strlen (s @ [NUL]) = length s"
  using strlen_append_NUL [OF assms, of "[]"] by simp

lemma dec_nat_line: "NUL \<notin> set (dec_nat n @ [newline])" "1 \<le> length (dec_nat n)"
  using notin_dec_nat [of NUL n] by (simp_all add: newline_def NUL_def Suc_le_eq is_digit_def)

lemma mywrite_request:
  assumes "0 < sint pid" and "c = CHR ''R'' \<or> c = CHR ''U''"
  shows "mp3_mywrite k junk (c # CHR '' '' # dec_nat (unat pid) @ [newline]) s =
    bindK (if c = CHR ''R'' then mp3_reg_entry k junk pid s else mp3_unreg_entry pid s)
      (\<lambda>(r, s'). Inr (length (c # CHR '' '' # dec_nat (unat pid) @ [newline]), s'))"
proof -
  let ?arg = "dec_nat (unat pid) @ [newline]" and ?req = "c # CHR '' '' # dec_nat (unat pid) @ [newline]"
  have nul: "NUL \<notin> set ?req" using assms(2) dec_nat_line(1) by (auto simp: NUL_def)
  have len: "\<not> strlen (?req @ [NUL]) < 3" unfolding strlen_request [OF nul] using dec_nat_line(2) by (simp add: not_less)
  have "str_at ([c, CHR '' ''] @ ?arg @ NUL # []) (length [c, CHR '' '']) = Inr ?arg"
    by (rule str_at_mid [OF dec_nat_line(1)])
  then have arg: "str_at (?req @ [NUL]) 2 = Inr ?arg" by (simp add: numeral_2_eq_2)
  have hd: "(?req @ [NUL]) ! 0 = c" by simp
  have g: "\<not> ((c \<noteq> CHR ''R'' \<and> c \<noteq> CHR ''U'') \<or> strlen (?req @ [NUL]) < 3)" using assms(2) len by blast
  show ?thesis
    unfolding mp3_mywrite_def Let_def hd if_not_P [OF g] arg bindK_Inr request_arg [OF assms(1)]
    using assms by auto
qed

lemma find_entry_not_OOB: "find_entry h P xs \<noteq> Inl OutOfBounds"
  by (induction xs) (auto simp: deref_def split: option.split)

lemma unreg_not_OOB: "mp3_unreg_entry pid s \<noteq> Inl OutOfBounds"
  using find_entry_not_OOB [of "heap s" "\<lambda>t. ts3_pid t = pid" "mp3_HEAD s"]
  by (cases "get_by_pid s pid") (auto simp: unreg_entry_eq get_by_pid_def split: option.split if_splits)

lemma mywrite_in_bounds: "mp3_mywrite k junk bytes s \<noteq> Inl OutOfBounds"
proof (cases "strlen (bytes @ [NUL]) < 3")
  case False
  then have "3 \<le> length bytes" using strlen_snoc_NUL [of bytes] by linarith
  then have "\<exists>arg. str_at (bytes @ [NUL]) 2 = Inr arg" by (simp add: str_at_def)
  then show ?thesis
    using unreg_not_OOB
    by (auto simp: mp3_mywrite_def Let_def reg_entry_eq bindK_def split: sum.split option.split)
qed (simp add: mp3_mywrite_def)

text \<open>
  C32: The requests of the work program reach the right handler with its thread id: for every positive id the
  text that \<open>echo\<close> writes to the proc file is parsed back to that id and registered or
  unregistered; and no request, however malformed, makes the write callback read outside its buffer.\<close>
theorem profile_requests_parsed:
  assumes "0 < sint pid"
  shows "mp3_mywrite k junk (work_register pid) s =
      bindK (mp3_reg_entry k junk pid s) (\<lambda>(r, s'). Inr (length (work_register pid), s'))
    \<and> mp3_mywrite k junk (work_unregister pid) s =
      bindK (mp3_unreg_entry pid s) (\<lambda>(r, s'). Inr (length (work_unregister pid), s'))
    \<and> (\<forall>bytes. mp3_mywrite k junk bytes s \<noteq> Inl OutOfBounds)"
proof (intro conjI allI)
  fix bytes
  show "mp3_mywrite k junk bytes s \<noteq> Inl OutOfBounds"
    by (rule mywrite_in_bounds)
qed (use assms mywrite_request [of pid "CHR ''R''" k junk s] mywrite_request [of pid "CHR ''U''" k junk s]
      in \<open>simp_all add: work_register_def work_unregister_def\<close>)

theorem profile_requests_parsed_witness:
  "mp3_mywrite (Some 100) demo3_node (work_register 5) demo3_start = Inr (length (work_register 5), demo3_reg)"
proof -
  have "mp3_reg_entry (Some 100) demo3_node 5 demo3_start = Inr (0, demo3_reg)"
    by (simp add: reg_entry_eq link_node_def list_add_tail_def demo3_defs) (simp add: demo3_procs_def demo3_node_def)
  then show ?thesis using profile_requests_parsed [of 5 "Some 100" demo3_node demo3_start] by simp
qed

text \<open>
  The read callback stays within its buffer, and when everything is copied it returns 0, which a
  reader takes for the end of the file.
\<close>

lemma length_fmt_ld: "length (fmt_ld w) \<le> 20"
proof -
  have "- (2 ^ 63) \<le> sint w" "sint w < 2 ^ 63"
    using sint_ge [of w] sint_lt [of w] by simp_all
  then have "nat (- sint w) < 10 ^ 19" "nat (sint w) < 10 ^ 19" by simp_all
  then show ?thesis
    using length_dec_nat_le [of "nat (- sint w)" 19] length_dec_nat_le [of "nat (sint w)" 19]
    by (simp add: fmt_ld_def dec_int_def)
qed

lemma profiler_read_returns_nothing: "\<exists>n. mp3_myread (\<lambda>_. 0) ptr 0 = Inr (0, n, n) \<and> 0 < n \<and> n \<le> 256"
proof -
  have "length (mp3_read_text ptr) \<le> 21 + 4 * 20 + 3 * 2 + 1"
    using length_fmt_ld [of ptr] length_fmt_ld [of "ptr + 8"] length_fmt_ld [of "ptr + 16"] length_fmt_ld [of "ptr + 24"]
    by (simp add: mp3_read_text_def)
  then show ?thesis by (simp add: mp3_myread_def Let_def)
qed

section \<open>The work program\<close>

text \<open>
  C's \<open>/\<close> and \<open>%\<close> on \<open>int\<close> truncate, which is \<open>sdiv\<close> and \<open>smod\<close>.  The results of \<open>rand\<close> are the
  sequence \<open>rnd\<close>; the state of the access loop is the number of values drawn and the local address.
  The log holds what the program does: the requests it writes, the blocks it allocates and frees, the
  bytes it stores to, and the number it prints when memory is short.
\<close>

datatype work_action =
    Request string | Malloc nat | Free_block nat | Store int int | OutOfMemory int

definition N_ITERATION :: nat where "N_ITERATION = 20"

definition rand_access :: "int \<Rightarrow> int \<Rightarrow> int \<times> int" where
  "rand_access msize r =
     (let target = r smod (msize * 1024 * 1024);
          target = (if target < 0 then target * - 1 else target);
          blk = target sdiv 1024 sdiv 1024
      in (blk, target - blk * 1024 * 1024))"

definition local_access :: "(nat \<Rightarrow> int) \<Rightarrow> nat \<times> int \<Rightarrow> nat \<times> int" where
  "local_access rnd st =
     (let (n, addr) = st in
      if rnd n < 0 then (n + 1, addr + 1) else (n + 2, addr + rnd (n + 1) smod 300))"

text \<open>One iteration: \<open>j\<close> accesses, random ones or ones that are random in a fifth of the cases.\<close>

fun access_loop :: "(nat \<Rightarrow> int) \<Rightarrow> int \<Rightarrow> bool \<Rightarrow> nat \<Rightarrow> nat \<times> int \<Rightarrow> work_action list \<times> nat \<times> int" where
  "access_loop rnd msize locality 0 st = ([], st)"
| "access_loop rnd msize locality (Suc j) (n, addr) =
     (let (log, st) =
        (if \<not> locality then ([case rand_access msize (rnd n) of (b, i) \<Rightarrow> Store b i], (n + 1, addr))
         else (let loc = rnd n smod 10 in
           if - 2 < loc \<and> loc < 2
           then ([case rand_access msize (rnd (n + 1)) of (b, i) \<Rightarrow> Store b i], (n + 2, addr))
           else ([], local_access rnd (n + 1, addr))));
        (log', st') = access_loop rnd msize locality j st
      in (log @ log', st'))"

fun iterations :: "(nat \<Rightarrow> int) \<Rightarrow> int \<Rightarrow> bool \<Rightarrow> nat \<Rightarrow> nat \<Rightarrow> nat \<times> int \<Rightarrow> work_action list" where
  "iterations rnd msize locality naccess 0 st = []"
| "iterations rnd msize locality naccess (Suc k) st =
     (let (log, st') = access_loop rnd msize locality naccess st
      in log @ iterations rnd msize locality naccess k st')"

text \<open>
  The allocation loop from block \<open>i\<close> on; on a failure the inner loop frees the blocks below, and
  \<open>i\<close> is what the message prints.  \<open>free_down\<close> is that inner loop: the blocks it frees and the value
  of \<open>i\<close> behind it.
\<close>

function free_down :: "int \<Rightarrow> work_action list \<times> int" where
  "free_down i = (if 0 \<le> i then (let (log, i') = free_down (i - 1) in (Free_block (nat i) # log, i')) else ([], i))"
  by pat_completeness auto
termination
  by (relation "measure (\<lambda>i. nat (i + 1))") auto

declare free_down.simps [simp del]

fun alloc_blocks :: "(nat \<Rightarrow> bool) \<Rightarrow> nat \<Rightarrow> nat \<Rightarrow> bool \<times> work_action list" where
  "alloc_blocks malloc_ok i 0 = (True, [])"
| "alloc_blocks malloc_ok i (Suc k) =
     (if malloc_ok i then (let (r, log) = alloc_blocks malloc_ok (Suc i) k in (r, Malloc i # log))
      else (let (log, i') = free_down (int i - 1) in (False, log @ [OutOfMemory i'])))"

definition work_main ::
  "u32 \<Rightarrow> nat \<Rightarrow> int \<Rightarrow> char \<Rightarrow> int \<Rightarrow> (nat \<Rightarrow> bool) \<Rightarrow> (nat \<Rightarrow> int) \<Rightarrow> int \<times> work_action list" where
  "work_main mypid argc msize mode naccess malloc_ok rnd =
     (if argc < 4 then (- 1, [])
      else if 1024 < msize \<or> msize < 1 then (- 1, [])
      else if naccess < 1 then (- 1, [])
      else (let (got, log) = alloc_blocks malloc_ok 0 (nat msize) in
        if \<not> got then (- 1, Request (work_register mypid) # log)
        else (0, Request (work_register mypid) # log
               @ iterations rnd msize (mode \<noteq> CHR ''R'') (nat naccess) N_ITERATION (0, 0)
               @ map Free_block [0..<nat msize] @ [Request (work_unregister mypid)])))"

lemma sdiv_nonneg: "0 \<le> a \<Longrightarrow> 0 < b \<Longrightarrow> a sdiv b = a div (b :: int)"
  by (cases "a = 0") (auto simp: signed_divide_int_def)

lemma rand_access_bounds:
  assumes "1 \<le> msize"
  shows "0 \<le> fst (rand_access msize r) \<and> fst (rand_access msize r) < msize
    \<and> 0 \<le> snd (rand_access msize r) \<and> snd (rand_access msize r) < 1024 * 1024"
proof -
  define t where "t = \<bar>r smod (msize * 1024 * 1024)\<bar>"
  have t: "0 \<le> t" "t < msize * 1024 * 1024"
    using assms smod_int_range [of "msize * 1024 * 1024" r] by (auto simp: t_def)
  have tt: "(if r smod (msize * 1024 * 1024) < 0 then r smod (msize * 1024 * 1024) * - 1
      else r smod (msize * 1024 * 1024)) = t"
    by (simp add: t_def)
  have e: "rand_access msize r = (t div 1024 div 1024, t - t div 1024 div 1024 * 1024 * 1024)"
    unfolding rand_access_def Let_def tt using t by (simp add: sdiv_nonneg pos_imp_zdiv_nonneg_iff)
  have q: "t div 1024 div 1024 = t div 1048576" by (simp add: div_mult2_eq [symmetric] zdiv_zmult2_eq)
  have "0 \<le> t div 1048576" "t - t div 1048576 * 1024 * 1024 = t mod 1048576"
    using t by (simp_all add: pos_imp_zdiv_nonneg_iff minus_div_mult_eq_mod [symmetric])
  moreover have "t div 1048576 < msize" using t by linarith
  ultimately show ?thesis unfolding e q by simp
qed

lemma access_loop_stores:
  assumes "1 \<le> msize" and "x \<in> set (fst (access_loop rnd msize locality j st))"
  shows "\<exists>b i. x = Store b i \<and> 0 \<le> b \<and> b < msize \<and> 0 \<le> i \<and> i < 1024 * 1024"
  using assms(2)
proof (induction j arbitrary: st)
  case (Suc j)
  obtain n addr where st: "st = (n, addr)" by (cases st)
  from Suc show ?case
    using rand_access_bounds [OF assms(1)]
    by (auto simp: st Let_def case_prod_unfold split: if_splits)
qed simp

lemma iterations_stores:
  assumes "1 \<le> msize" and "x \<in> set (iterations rnd msize locality naccess k st)"
  shows "\<exists>b i. x = Store b i \<and> 0 \<le> b \<and> b < msize \<and> 0 \<le> i \<and> i < 1024 * 1024"
  using assms(2)
proof (induction k arbitrary: st)
  case (Suc k)
  then have "x \<in> set (fst (access_loop rnd msize locality naccess st))
      \<or> x \<in> set (iterations rnd msize locality naccess k (snd (access_loop rnd msize locality naccess st)))"
    by (simp add: Let_def case_prod_unfold)
  then show ?case using Suc.IH access_loop_stores [OF assms(1)] by blast
qed simp

lemma free_down_eq: "free_down (int i - 1) = (map Free_block (rev [0..<i]), - 1)"
proof (induction i)
  case (Suc i)
  then show ?case by (subst free_down.simps) simp
qed (simp add: free_down.simps)

lemma alloc_blocks_ok: "\<forall>l \<in> {i..<i + k}. malloc_ok l \<Longrightarrow> alloc_blocks malloc_ok i k = (True, map Malloc [i..<i + k])"
  by (induction k arbitrary: i) (auto simp: upt_conv_Cons)

lemma alloc_blocks_fail:
  assumes "\<forall>l < k. malloc_ok (i + l)" and "\<not> malloc_ok (i + k)" and "k < n"
  shows "alloc_blocks malloc_ok i n = (False, map Malloc [i..<i + k] @ map Free_block (rev [0..<i + k]) @ [OutOfMemory (- 1)])"
  using assms
proof (induction k arbitrary: i n)
  case 0
  then show ?case by (cases n) (simp_all add: free_down_eq)
next
  case (Suc k)
  then obtain m where n: "n = Suc m" "k < m" by (cases n) auto
  have "malloc_ok (Suc i + l)" if "l < k" for l using Suc.prems(1) [rule_format, of "Suc l"] that by simp
  then have "alloc_blocks malloc_ok (Suc i) m =
      (False, map Malloc [Suc i..<Suc i + k] @ map Free_block (rev [0..<Suc i + k]) @ [OutOfMemory (- 1)])"
    using Suc.IH [of "Suc i" m] Suc.prems(2) n by simp
  moreover have "malloc_ok i" using Suc.prems(1) [rule_format, of 0] by simp
  ultimately show ?case by (simp add: n upt_conv_Cons)
qed

text \<open>
  C33: The work program.  With memory available it registers, allocates its blocks, stores only inside them (block
  number below the memory size, offset below one megabyte), frees each block once and unregisters.
  When the allocation of block \<open>k\<close> fails it frees the blocks it has, prints -1 as the size
  reached, and ends without unregistering, so that the profiler keeps the entry of a process that no
  longer exists.\<close>
theorem work_program_log:
  assumes "4 \<le> argc" and "1 \<le> msize" and "msize \<le> 1024" and "1 \<le> naccess"
  shows "((\<forall>i < nat msize. malloc_ok i) \<longrightarrow>
      (\<exists>stores. work_main mypid argc msize mode naccess malloc_ok rnd =
         (0, [Request (work_register mypid)] @ map Malloc [0..<nat msize] @ stores
             @ map Free_block [0..<nat msize] @ [Request (work_unregister mypid)])
       \<and> (\<forall>x \<in> set stores. \<exists>b i. x = Store b i \<and> 0 \<le> b \<and> b < msize \<and> 0 \<le> i \<and> i < 1024 * 1024)))
    \<and> (\<forall>k < nat msize. (\<forall>i < k. malloc_ok i) \<and> \<not> malloc_ok k \<longrightarrow>
      work_main mypid argc msize mode naccess malloc_ok rnd =
        (- 1, [Request (work_register mypid)] @ map Malloc [0..<k] @ map Free_block (rev [0..<k]) @ [OutOfMemory (- 1)]))"
proof (intro conjI impI allI)
  assume "\<forall>i < nat msize. malloc_ok i"
  then have "alloc_blocks malloc_ok 0 (nat msize) = (True, map Malloc [0..<nat msize])"
    using alloc_blocks_ok [of 0 "nat msize" malloc_ok] by simp
  then show "\<exists>stores. work_main mypid argc msize mode naccess malloc_ok rnd =
         (0, [Request (work_register mypid)] @ map Malloc [0..<nat msize] @ stores
             @ map Free_block [0..<nat msize] @ [Request (work_unregister mypid)])
       \<and> (\<forall>x \<in> set stores. \<exists>b i. x = Store b i \<and> 0 \<le> b \<and> b < msize \<and> 0 \<le> i \<and> i < 1024 * 1024)"
    using assms iterations_stores [OF assms(2)] by (auto simp: work_main_def)
next
  fix k assume "k < nat msize" and "(\<forall>i < k. malloc_ok i) \<and> \<not> malloc_ok k"
  then show "work_main mypid argc msize mode naccess malloc_ok rnd =
        (- 1, [Request (work_register mypid)] @ map Malloc [0..<k] @ map Free_block (rev [0..<k]) @ [OutOfMemory (- 1)])"
    using assms alloc_blocks_fail [of k malloc_ok 0 "nat msize"] by (simp add: work_main_def)
qed

theorem work_program_log_witness:
  "work_main 7 4 2 (CHR ''R'') 1 (\<lambda>i. i < 1) (\<lambda>_. 5) =
     (- 1, [Request (work_register 7), Malloc 0, Free_block 0, OutOfMemory (- 1)])"
  using conjunct2 [OF work_program_log [of 4 2 1 "\<lambda>i. i < 1" 7 "CHR ''R''" "\<lambda>_. 5"], rule_format, of 1] by simp

section \<open>The pointer experiment\<close>

text \<open>
  \<open>test\<close> of \<open>MP3/test.c\<close> prints the address of a variable, the pointer four elements behind it, that
  pointer plus one and minus four elements, and the size of an element.
\<close>

definition sizeof_ulong :: u64 where "sizeof_ulong = 8"

definition test_pointers :: "u64 \<Rightarrow> u64 list" where
  "test_pointers var =
     (let tmp = var; ptr = tmp + 4 * sizeof_ulong
      in [tmp, ptr, ptr + 1 * sizeof_ulong, ptr - 4 * sizeof_ulong, sizeof_ulong])"

lemma test_pointers_arith: "test_pointers var = [var, var + 32, var + 40, var, 8]"
  by (simp add: test_pointers_def sizeof_ulong_def)

end
