(* ===== verification/MP3_Monitor.thy ===== *)
theory MP3_Monitor
  imports MP3_User
begin

text \<open>
  The reader of the profiler buffer, \<open>MP3/monitor.c\<close>, and its interplay with the work of the module:
  the name of the output file it announces, opening and mapping the device, the search for the
  first sample and the loop that prints the samples and marks them read.

  The descriptor and the mapping the kernel returns, the page size and the text of \<open>ctime\<close> are
  parameters; the mapped buffer is the list of its elements.
\<close>

section \<open>The monitor\<close>


type_synonym sample = "u64 \<times> u64 \<times> u64 \<times> u64"














section \<open>Reading what the work has stored\<close>

definition flat :: "sample list \<Rightarrow> u64 list" where
  "flat ss = concat (map (\<lambda>(a, b, c, d). [a, b, c, d]) ss)"

lemma length_flat [simp]: "length (flat ss) = 4 * length ss"
  by (induction ss) (auto simp: flat_def)

lemma flat_Nil [simp]: "flat [] = []"
  by (simp add: flat_def)













section \<open>The whole program\<close>












section \<open>The name of the output file\<close>







section \<open>From the work to the output\<close>






end
