(* ===== verification/MP4_Policy.thy ===== *)
theory MP4_Policy
  imports KLib "HOL-Library.Sublist"
begin

unbundle bit_operations_syntax

text \<open>
  The access-control policy of the security module: the labels and the path and context
  functions of \<open>MP4/mp4_given.h\<close> and the decision function \<open>mp4_has_permission\<close> of \<open>MP4/mp4.c\<close>.

  A security id is the C \<open>int\<close> of the label.  The access bits \<open>MAY_READ\<close>, \<open>MAY_WRITE\<close>, \<dots> come from
  the kernel headers and are a parameter, the record \<open>may\<close>; all that matters of them is that they
  are different single bits (\<open>may_ok\<close>).  The return value 0 is \<open>None\<close>, an error \<open>-E\<close> is \<open>Some E\<close>.

  The comments of the header say which accesses each label allows; \<open>documented_access\<close> writes
  that down, and the decision function is compared with it label by label.  \<open>enforced_access\<close> is the
  table the decision function really implements.
\<close>

type_synonym sid = int
type_synonym ret = "errno option"

section \<open>Labels\<close>

definition MP4_NO_ACCESS :: sid where "MP4_NO_ACCESS = 0"
definition MP4_READ_OBJ :: sid where "MP4_READ_OBJ = 1"
definition MP4_READ_WRITE :: sid where "MP4_READ_WRITE = 2"
definition MP4_WRITE_OBJ :: sid where "MP4_WRITE_OBJ = 3"
definition MP4_EXEC_OBJ :: sid where "MP4_EXEC_OBJ = 4"
definition MP4_READ_DIR :: sid where "MP4_READ_DIR = 5"
definition MP4_RW_DIR :: sid where "MP4_RW_DIR = 6"
definition MP4_TARGET_SID :: sid where "MP4_TARGET_SID = 7"

lemmas sid_defs = MP4_NO_ACCESS_def MP4_READ_OBJ_def MP4_READ_WRITE_def MP4_WRITE_OBJ_def
  MP4_EXEC_OBJ_def MP4_READ_DIR_def MP4_RW_DIR_def MP4_TARGET_SID_def

record may =
  MAY_EXEC :: u32
  MAY_WRITE :: u32
  MAY_READ :: u32
  MAY_APPEND :: u32
  MAY_ACCESS :: u32

section \<open>Functions\<close>

definition cred_ctx_to_sid :: "string \<Rightarrow> sid" where
  "cred_ctx_to_sid cred_ctx =
     (if strcmp_eq cred_ctx ''read-only'' then MP4_READ_OBJ
      else if strcmp_eq cred_ctx ''read-write'' then MP4_READ_WRITE
      else if strcmp_eq cred_ctx ''exec'' then MP4_EXEC_OBJ
      else if strcmp_eq cred_ctx ''target'' then MP4_TARGET_SID
      else if strcmp_eq cred_ctx ''write-only'' then MP4_WRITE_OBJ
      else if strcmp_eq cred_ctx ''dir'' then MP4_READ_DIR
      else if strcmp_eq cred_ctx ''dir-write'' then MP4_RW_DIR
      else MP4_NO_ACCESS)"

text \<open>
  A \<open>char *\<close> that comes from a path printer: null, an error pointer, or a pointer to a string.  The
  string comparisons read through it.
\<close>

datatype path_ptr = PathNull | PathErr | Path string

definition load_string :: "path_ptr \<Rightarrow> string kres" where
  "load_string p = (case p of PathNull \<Rightarrow> Inl NullDeref | PathErr \<Rightarrow> Inl ErrPtrDeref | Path s \<Rightarrow> Inr s)"

definition strncmp_ptr :: "path_ptr \<Rightarrow> string \<Rightarrow> nat \<Rightarrow> bool kres" where
  "strncmp_ptr p t n = bindK (load_string p) (\<lambda>s. Inr (strncmp_eq s t n))"

definition strcmp_ptr :: "path_ptr \<Rightarrow> string \<Rightarrow> bool kres" where
  "strcmp_ptr p t = bindK (load_string p) (\<lambda>s. Inr (strcmp_eq s t))"

text \<open>C's \<open>||\<close> over tests that may fault.\<close>

fun any_of :: "bool kres list \<Rightarrow> bool kres" where
  "any_of [] = Inr False"
| "any_of (t # ts) = bindK t (\<lambda>b. if b then Inr True else any_of ts)"

definition mp4_should_skip_path :: "path_ptr \<Rightarrow> bool kres" where
  "mp4_should_skip_path dir =
     any_of [strncmp_ptr dir ''/dev'' 4, strncmp_ptr dir ''/proc'' 5, strncmp_ptr dir ''/lib'' 4,
       strncmp_ptr dir ''/events'' 7, strncmp_ptr dir ''/mnt'' 4, strncmp_ptr dir ''/run'' 4,
       strncmp_ptr dir ''/lvm'' 4, strncmp_ptr dir ''/conf'' 5, strncmp_ptr dir ''/usr'' 4,
       strncmp_ptr dir ''/bin'' 4, strcmp_ptr dir ''/'']"

text \<open>A C comparison as an \<open>int\<close>.\<close>

definition c_eq :: "u32 \<Rightarrow> u32 \<Rightarrow> u32" where
  "c_eq x y = (if x = y then 1 else 0)"

text \<open>
  The condition for \<open>MP4_EXEC_OBJ\<close> is written as in the source: \<open>==\<close> binds tighter than \<open>|\<close>, so
  what is tested is \<open>((mask | MAY_EXEC | MAY_READ) == MAY_EXEC) | MAY_READ\<close>.
\<close>

definition mp4_has_permission :: "may \<Rightarrow> sid \<Rightarrow> sid \<Rightarrow> u32 \<Rightarrow> ret" where
  "mp4_has_permission k ssid osid msk =
     (if msk = 0 then None
      else if osid = MP4_NO_ACCESS then
        (if ssid = MP4_TARGET_SID then Some EACCES else None)
      else if osid = MP4_READ_WRITE then
        (if msk = MAY_READ k then None
         else if (msk OR MAY_READ k OR MAY_WRITE k OR MAY_APPEND k) = (MAY_READ k OR MAY_WRITE k OR MAY_APPEND k) then
           (if ssid = MP4_TARGET_SID then None else Some EACCES)
         else Some EACCES)
      else if osid = MP4_READ_OBJ then
        (if msk = MAY_READ k then None else Some EACCES)
      else if osid = MP4_EXEC_OBJ then
        (if (c_eq (msk OR MAY_EXEC k OR MAY_READ k) (MAY_EXEC k) OR MAY_READ k) \<noteq> 0 then None else Some EACCES)
      else if osid = MP4_READ_DIR then
        (if (msk OR MAY_READ k OR MAY_EXEC k OR MAY_ACCESS k) = (MAY_READ k OR MAY_EXEC k OR MAY_ACCESS k)
         then None else Some EACCES)
      else if osid = MP4_RW_DIR then
        (if ssid = MP4_TARGET_SID then None else None)
      else Some EACCES)"

section \<open>The documented policy\<close>

definition may_ok :: "may \<Rightarrow> bool" where
  "may_ok k = (\<exists>e w r a c. distinct [e, w, r, a, c] \<and> set [e, w, r, a, c] \<subseteq> {..<32}
     \<and> MAY_EXEC k = 2 ^ e \<and> MAY_WRITE k = 2 ^ w \<and> MAY_READ k = 2 ^ r
     \<and> MAY_APPEND k = 2 ^ a \<and> MAY_ACCESS k = 2 ^ c)"

definition within :: "u32 \<Rightarrow> u32 \<Rightarrow> bool" where
  "within msk allowed = (msk OR allowed = allowed)"

text \<open>
  The accesses a label allows to the target program and to everybody else, in the words of the
  header: no access by the target, read by anyone, read/write/append by the target and read by
  others, write/append by the target and read by others, read and execute by all, read/exec/access
  by all, directory modified by the target (others are left to the regular access control).
\<close>

definition documented_access :: "may \<Rightarrow> bool \<Rightarrow> sid \<Rightarrow> u32" where
  "documented_access k target osid =
     (if osid = MP4_NO_ACCESS then (if target then 0 else - 1)
      else if osid = MP4_READ_OBJ then MAY_READ k
      else if osid = MP4_READ_WRITE then
        (if target then MAY_READ k OR MAY_WRITE k OR MAY_APPEND k else MAY_READ k)
      else if osid = MP4_WRITE_OBJ then
        (if target then MAY_WRITE k OR MAY_APPEND k else MAY_READ k)
      else if osid = MP4_EXEC_OBJ then MAY_READ k OR MAY_EXEC k
      else if osid = MP4_READ_DIR then MAY_READ k OR MAY_EXEC k OR MAY_ACCESS k
      else if osid = MP4_RW_DIR then - 1
      else 0)"

section \<open>Lemmas\<close>

lemma within_all [simp]: "within msk (- 1)"
  by (simp add: within_def)

lemma or_eq_zero_iff: "(a OR b :: u32) = 0 \<longleftrightarrow> a = 0 \<and> b = 0"
  by (auto simp: bit_eq_iff bit_or_iff)

lemma within_zero: "within msk 0 \<longleftrightarrow> msk = 0"
  by (simp add: within_def)

lemma within_single:
  assumes "r < 32" and "msk \<noteq> 0"
  shows "within msk (2 ^ r) \<longleftrightarrow> msk = 2 ^ r"
proof
  assume w: "within msk (2 ^ r)"
  have sub: "bit msk n \<Longrightarrow> n = r" for n
  proof -
    assume "bit msk n"
    then have "bit (msk OR 2 ^ r) n" by (simp add: bit_or_iff)
    then have "bit (2 ^ r :: u32) n" using w by (simp add: within_def)
    then show "n = r" by (simp add: bit_exp_iff)
  qed
  obtain n where "bit msk n" using assms(2) by (auto simp: bit_eq_iff)
  with sub have "bit msk r" by blast
  show "msk = 2 ^ r"
  proof (rule bit_word_eqI)
    fix n assume "n < LENGTH(32)"
    then show "bit msk n \<longleftrightarrow> bit (2 ^ r :: u32) n"
      using sub [of n] \<open>bit msk r\<close> by (auto simp: bit_exp_iff)
  qed
qed (simp add: within_def)

lemma may_okD:
  assumes "may_ok k"
  shows "MAY_READ k \<noteq> 0" and "msk \<noteq> 0 \<Longrightarrow> within msk (MAY_READ k) \<longleftrightarrow> msk = MAY_READ k"
    and "\<not> within (MAY_WRITE k) (MAY_READ k OR MAY_EXEC k)" and "MAY_WRITE k \<noteq> 0" and "MAY_APPEND k \<noteq> 0"
proof -
  obtain e w r a c where b: "distinct [e, w, r, a, c]" "set [e, w, r, a, c] \<subseteq> {..<32}"
    "MAY_EXEC k = 2 ^ e" "MAY_WRITE k = 2 ^ w" "MAY_READ k = 2 ^ r" "MAY_APPEND k = 2 ^ a"
    using assms unfolding may_ok_def by blast
  have nz: "(2 :: u32) ^ n \<noteq> 0" if "n < 32" for n
    using that by (simp add: exp_eq_zero_iff)
  show "MAY_READ k \<noteq> 0" "MAY_WRITE k \<noteq> 0" "MAY_APPEND k \<noteq> 0" using b nz by simp_all
  show "within msk (MAY_READ k) \<longleftrightarrow> msk = MAY_READ k" if "msk \<noteq> 0"
    using b within_single [of r msk] that by simp
  show "\<not> within (MAY_WRITE k) (MAY_READ k OR MAY_EXEC k)"
  proof
    assume "within (MAY_WRITE k) (MAY_READ k OR MAY_EXEC k)"
    then have "bit (MAY_READ k OR MAY_EXEC k) w \<longleftrightarrow> bit (MAY_WRITE k OR (MAY_READ k OR MAY_EXEC k)) w"
      by (simp add: within_def)
    with b show False by (auto simp: bit_or_iff bit_exp_iff)
  qed
qed

lemma has_permission_iff:
  assumes "may_ok k" and "osid \<in> {MP4_NO_ACCESS, MP4_READ_OBJ, MP4_READ_WRITE, MP4_READ_DIR, MP4_RW_DIR}"
  shows "mp4_has_permission k ssid osid msk = None \<longleftrightarrow>
    within msk (documented_access k (ssid = MP4_TARGET_SID) osid)"
proof (cases "msk = 0")
  case True
  then show ?thesis by (simp add: mp4_has_permission_def within_def)
next
  case False
  note read = may_okD(2) [OF assms(1) False]
  have rw: "within (MAY_READ k) (MAY_READ k OR MAY_WRITE k OR MAY_APPEND k)"
    by (simp add: within_def flip: or.assoc)
  show ?thesis
    using assms(2) False
  proof (elim insertE emptyE)
    assume "osid = MP4_READ_WRITE"
    then show ?thesis
      using False read rw
      by (auto simp: mp4_has_permission_def documented_access_def sid_defs)
        (auto simp: within_def)
  qed (auto simp: mp4_has_permission_def documented_access_def read sid_defs within_zero,
       auto simp: within_def)
qed

lemma has_permission_result: "mp4_has_permission k ssid osid msk \<in> {None, Some EACCES}"
  by (simp add: mp4_has_permission_def)

text \<open>A concrete choice of the bits, the one of \<open>linux/fs.h\<close>.\<close>

definition fs_may :: may where
  "fs_may = \<lparr>MAY_EXEC = 1, MAY_WRITE = 2, MAY_READ = 4, MAY_APPEND = 8, MAY_ACCESS = 16\<rparr>"

lemma fs_may_ok: "may_ok fs_may"
  unfolding may_ok_def fs_may_def
  by (rule exI [of _ 0], rule exI [of _ 1], rule exI [of _ 2], rule exI [of _ 3], rule exI [of _ 4]) simp

section \<open>Labels and paths\<close>

lemma strcmp_eq_iff: "NUL \<notin> set t \<Longrightarrow> strcmp_eq s t \<longleftrightarrow> cstring s = t"
  by (simp add: strcmp_eq_def cstring_id)

lemma strncmp_eq_prefix:
  assumes "NUL \<notin> set t"
  shows "strncmp_eq s t (length t) \<longleftrightarrow> prefix t (cstring s)"
proof
  assume "strncmp_eq s t (length t)"
  then have "cstring s = t @ drop (length t) (cstring s)"
    using assms append_take_drop_id [of "length t" "cstring s"]
    by (simp add: strncmp_eq_def cstring_id)
  then show "prefix t (cstring s)" by (rule prefixI)
next
  assume "prefix t (cstring s)"
  then show "strncmp_eq s t (length t)"
    using assms by (auto simp: strncmp_eq_def cstring_id prefix_def)
qed

definition skipped_prefixes :: "string list" where
  "skipped_prefixes = [''/dev'', ''/proc'', ''/lib'', ''/events'', ''/mnt'', ''/run'', ''/lvm'', ''/conf'',
                       ''/usr'', ''/bin'']"

definition skipped_path :: "string \<Rightarrow> bool" where
  "skipped_path s = ((\<exists>p \<in> set skipped_prefixes. prefix p (cstring s)) \<or> cstring s = ''/'')"

lemma any_of_Inr: "any_of (map Inr bs) = Inr (\<exists>b \<in> set bs. b)"
  by (induction bs) auto

lemma should_skip_eq:
  "mp4_should_skip_path p =
     (case p of PathNull \<Rightarrow> Inl NullDeref | PathErr \<Rightarrow> Inl ErrPtrDeref | Path s \<Rightarrow> Inr (skipped_path s))"
proof (cases p)
  case (Path s)
  have n: "strncmp_eq s t m \<longleftrightarrow> prefix t (cstring s)" if "NUL \<notin> set t" "length t = m" for t m
    using strncmp_eq_prefix [OF that(1), of s] that(2) by simp
  have "mp4_should_skip_path p = any_of (map Inr (map (\<lambda>t. prefix t (cstring s)) skipped_prefixes @ [cstring s = ''/'']))"
    unfolding mp4_should_skip_path_def skipped_prefixes_def strncmp_ptr_def strcmp_ptr_def load_string_def Path
    by (simp add: n strcmp_eq_iff NUL_def del: any_of.simps)
  then show ?thesis unfolding any_of_Inr by (auto simp: skipped_path_def Path)
qed (simp_all add: mp4_should_skip_path_def strncmp_ptr_def load_string_def)

definition label_of :: "sid \<Rightarrow> string" where
  "label_of i = (if i = MP4_READ_OBJ then ''read-only'' else if i = MP4_READ_WRITE then ''read-write''
     else if i = MP4_WRITE_OBJ then ''write-only'' else if i = MP4_EXEC_OBJ then ''exec''
     else if i = MP4_READ_DIR then ''dir'' else if i = MP4_RW_DIR then ''dir-write''
     else if i = MP4_TARGET_SID then ''target'' else [])"

lemma cred_ctx_cases:
  "cred_ctx_to_sid s = i \<longleftrightarrow>
     (if i \<in> {1..7} then cstring s = label_of i
      else i = 0 \<and> cstring s \<notin> label_of ` {1..7})"
proof -
  have r: "{1..7 :: int} = {1, 2, 3, 4, 5, 6, 7}" by auto
  show ?thesis
    unfolding cred_ctx_to_sid_def r
    by (simp add: strcmp_eq_iff NUL_def label_of_def sid_defs)
qed

text \<open>
  What the decision function grants on every label: the documented accesses on the five labels for
  which it follows the header, everything on \<open>exec\<close>, and nothing on \<open>write-only\<close>, on \<open>target\<close> and on
  any other number.
\<close>

definition enforced_access :: "may \<Rightarrow> bool \<Rightarrow> sid \<Rightarrow> u32" where
  "enforced_access k target osid =
     (if osid \<in> {MP4_NO_ACCESS, MP4_READ_OBJ, MP4_READ_WRITE, MP4_READ_DIR, MP4_RW_DIR}
      then documented_access k target osid else if osid = MP4_EXEC_OBJ then - 1 else 0)"

lemma has_permission_enforced:
  assumes "may_ok k"
  shows "mp4_has_permission k ssid osid msk =
    (if within msk (enforced_access k (ssid = MP4_TARGET_SID) osid) then None else Some EACCES)"
proof (cases "osid \<in> {MP4_NO_ACCESS, MP4_READ_OBJ, MP4_READ_WRITE, MP4_READ_DIR, MP4_RW_DIR}")
  case True
  then show ?thesis
    using has_permission_iff [OF assms True, of ssid msk] has_permission_result [of k ssid osid msk]
    by (auto simp: enforced_access_def)
next
  case False
  then show ?thesis
    using may_okD(1) [OF assms]
    by (auto simp: mp4_has_permission_def enforced_access_def within_zero or_eq_zero_iff)
qed

section \<open>Properties of the policy\<close>

text \<open>
  C13: For the labels no-access, read-only, read-write, directory and writable directory the decision of
  \<open>mp4_has_permission\<close> is the documented policy: a request is granted exactly when every
  access bit in it is one the header's comment allows to this subject (the target program or
  another one) on an object with this label, and a refusal is always \<open>-EACCES\<close>.\<close>
theorem permission_as_documented:
  assumes "may_ok k"
    and "osid \<in> {MP4_NO_ACCESS, MP4_READ_OBJ, MP4_READ_WRITE, MP4_READ_DIR, MP4_RW_DIR}"
  shows "mp4_has_permission k ssid osid msk =
    (if within msk (documented_access k (ssid = MP4_TARGET_SID) osid) then None else Some EACCES)"
  using has_permission_iff [OF assms, of ssid msk] has_permission_result [of k ssid osid msk] by auto

theorem permission_as_documented_witness:
  "mp4_has_permission fs_may MP4_TARGET_SID MP4_READ_WRITE 10 = None
   \<and> mp4_has_permission fs_may MP4_NO_ACCESS MP4_READ_WRITE 10 = Some EACCES"
  using permission_as_documented [OF fs_may_ok, of MP4_READ_WRITE MP4_TARGET_SID 10]
    permission_as_documented [OF fs_may_ok, of MP4_READ_WRITE MP4_NO_ACCESS 10]
  by (simp add: within_def documented_access_def fs_may_def sid_defs)

text \<open>
  C36: Two labels do not follow the documentation.  An object labelled \<open>exec\<close> is open to every access, also to
  writing by a program that is not the target, although the header says it may be read and executed
  only: in \<open>(mask | MAY_EXEC | MAY_READ) == MAY_EXEC | MAY_READ\<close> the comparison binds tighter, so the
  test is never false.  An object labelled \<open>write-only\<close> is closed to every access: the decision function has no
  branch for the label, so both the write of the target program and the read of another program,
  which the header allows, are refused.\<close>
theorem exec_and_write_only_labels_diverge:
  assumes "may_ok k" and "msk \<noteq> 0"
  shows "mp4_has_permission k ssid MP4_EXEC_OBJ msk = None
    \<and> \<not> within (MAY_WRITE k) (documented_access k target MP4_EXEC_OBJ)
    \<and> mp4_has_permission k ssid MP4_WRITE_OBJ msk = Some EACCES
    \<and> within (MAY_WRITE k) (documented_access k True MP4_WRITE_OBJ)
    \<and> within (MAY_READ k) (documented_access k False MP4_WRITE_OBJ)"
proof -
  have "mp4_has_permission k ssid MP4_EXEC_OBJ msk = None
      \<and> \<not> within (MAY_WRITE k) (documented_access k target MP4_EXEC_OBJ)"
    using may_okD(1,3) [OF assms(1)]
    by (simp add: mp4_has_permission_def documented_access_def sid_defs or_eq_zero_iff)
  moreover have "mp4_has_permission k ssid MP4_WRITE_OBJ msk = Some EACCES"
    using assms(2) by (simp add: mp4_has_permission_def sid_defs)
  moreover have "within (MAY_WRITE k) (documented_access k True MP4_WRITE_OBJ)"
    "within (MAY_READ k) (documented_access k False MP4_WRITE_OBJ)"
    by (simp_all add: documented_access_def sid_defs within_def flip: or.assoc)
  ultimately show ?thesis by blast
qed

theorem exec_and_write_only_labels_diverge_witness:
  "mp4_has_permission fs_may MP4_NO_ACCESS MP4_EXEC_OBJ (MAY_WRITE fs_may) = None
   \<and> mp4_has_permission fs_may MP4_NO_ACCESS MP4_WRITE_OBJ (MAY_WRITE fs_may) = Some EACCES"
proof -
  have "MAY_WRITE fs_may \<noteq> 0" by (simp add: fs_may_def)
  from exec_and_write_only_labels_diverge [OF fs_may_ok this, of MP4_NO_ACCESS] show ?thesis by blast
qed

text \<open>
  \<open>__cred_ctx_to_sid\<close> maps exactly one string to each of the seven labels and every other string to
  \<open>MP4_NO_ACCESS\<close>; what follows the terminating NUL in the buffer does not matter.\<close>
lemma label_strings:
  "cred_ctx_to_sid s = i \<longleftrightarrow>
     (if i \<in> {MP4_READ_OBJ, MP4_READ_WRITE, MP4_WRITE_OBJ, MP4_EXEC_OBJ, MP4_READ_DIR, MP4_RW_DIR, MP4_TARGET_SID}
      then cstring s = label_of i
      else i = MP4_NO_ACCESS
        \<and> cstring s \<notin> {''read-only'', ''read-write'', ''write-only'', ''exec'', ''dir'', ''dir-write'', ''target''})"
proof -
  have r: "{MP4_READ_OBJ, MP4_READ_WRITE, MP4_WRITE_OBJ, MP4_EXEC_OBJ, MP4_READ_DIR, MP4_RW_DIR, MP4_TARGET_SID}
      = {1..7}" by (auto simp: sid_defs)
  have l: "{''read-only'', ''read-write'', ''write-only'', ''exec'', ''dir'', ''dir-write'', ''target''} =
      label_of ` {1..7}"
    unfolding r [symmetric] by (simp add: label_of_def sid_defs insert_commute)
  show ?thesis
    unfolding r l using cred_ctx_cases [of s i] by (simp add: sid_defs)
qed

end
