(* ===== verification/MP4.thy ===== *)
theory MP4
  imports MP4_Policy KTrans
begin

text \<open>
  The hooks of the security module, \<open>MP4/mp4.c\<close>.

  A \<open>struct cred\<close> is an address of the store \<open>creds\<close>; its field \<open>security\<close> is a number, 0 the null
  pointer and \<open>0x7\<close> the poison value that \<open>mp4_cred_free\<close> leaves behind.  A \<open>struct mp4_security\<close> is an
  entry of \<open>blobs\<close> (its only field is \<open>mp4_flags\<close>).  The references to directory entries and the
  temporary buffers a hook holds are counted, so that a leak on an early return shows.

  What the hooks call of the kernel is the record \<open>kernel\<close>: the alias of an inode, the attribute
  reader of the inode, the path printer, the page size and the access bits.  The results of the
  allocations are arguments of the hooks (0 or \<open>False\<close> for a failure).
\<close>

section \<open>State and environment\<close>

type_synonym cred = addr
type_synonym dentry = nat

record inode =
  i_op :: bool          \<comment> \<open>\<open>inode->i_op\<close> is not null\<close>
  getxattr_op :: bool   \<comment> \<open>\<open>inode->i_op->getxattr\<close> is not null\<close>
  is_dir :: bool        \<comment> \<open>\<open>S_ISDIR(inode->i_mode)\<close>\<close>
  ino :: nat

record kernel =
  d_find_alias :: "inode \<Rightarrow> dentry option"
  getxattr :: "dentry \<Rightarrow> string \<Rightarrow> nat \<Rightarrow> int \<times> string"
  dentry_path_raw :: "dentry \<Rightarrow> nat \<Rightarrow> path_ptr"
  PAGE_SIZE :: nat
  bits :: may

record mp4 =
  creds :: "cred \<rightharpoonup> nat"
  blobs :: "nat \<rightharpoonup> sid"
  dentry_refs :: int
  buffers :: int

record linux_binprm =
  b_file :: "inode option option"   \<comment> \<open>the file, and \<open>file_inode\<close> of it\<close>
  b_cred :: "cred option"
  cred_prepared :: bool

definition dget :: "mp4 \<Rightarrow> mp4" where "dget s = s\<lparr>dentry_refs := dentry_refs s + 1\<rparr>"
definition dput :: "mp4 \<Rightarrow> mp4" where "dput s = s\<lparr>dentry_refs := dentry_refs s - 1\<rparr>"
definition balloc :: "mp4 \<Rightarrow> mp4" where "balloc s = s\<lparr>buffers := buffers s + 1\<rparr>"
definition bfree :: "mp4 \<Rightarrow> mp4" where "bfree s = s\<lparr>buffers := buffers s - 1\<rparr>"

lemmas count_defs = dget_def dput_def balloc_def bfree_def

definition XATTR_MP4_SUFFIX :: string where "XATTR_MP4_SUFFIX = ''mp4''"
definition XATTR_NAME_MP4 :: string where "XATTR_NAME_MP4 = ''security.'' @ XATTR_MP4_SUFFIX"

section \<open>Labels of inodes\<close>

text \<open>The zeroed buffer of 256 bytes after the attribute value has been copied into it.\<close>

definition ctx_buffer :: "string \<Rightarrow> char list" where
  "ctx_buffer val = take 256 val @ replicate (256 - length val) NUL"

definition get_inode_sid :: "kernel \<Rightarrow> bool \<Rightarrow> inode option \<Rightarrow> mp4 \<Rightarrow> sid \<times> mp4" where
  "get_inode_sid k alloc inode s =
     (case inode of
        None \<Rightarrow> (MP4_NO_ACCESS, s)
      | Some i \<Rightarrow>
          if \<not> i_op i \<or> \<not> getxattr_op i then (MP4_NO_ACCESS, s)
          else (case d_find_alias k i of
              None \<Rightarrow> (MP4_NO_ACCESS, s)
            | Some de \<Rightarrow> (let s = dget s in
                if \<not> alloc then (MP4_NO_ACCESS, dput s)
                else (let s = balloc s; (r, val) = getxattr k de XATTR_NAME_MP4 256 in
                  if r < 0 then (MP4_NO_ACCESS, dput (bfree s))
                  else (cred_ctx_to_sid (ctx_buffer val), bfree (dput s))))))"

section \<open>Credentials\<close>

definition mp4_bprm_set_creds :: "kernel \<Rightarrow> bool \<Rightarrow> linux_binprm option \<Rightarrow> mp4 \<Rightarrow> (ret \<times> mp4) kres" where
  "mp4_bprm_set_creds k alloc bprm s =
     (case bprm of
        None \<Rightarrow> Inr (Some ENOENT, s)
      | Some b \<Rightarrow>
         (case b_file b of
            None \<Rightarrow> Inr (Some ENOENT, s)
          | Some None \<Rightarrow> Inr (Some ENOENT, s)
          | Some (Some node) \<Rightarrow>
             (case b_cred b of
                None \<Rightarrow> Inr (Some ENOENT, s)
              | Some c \<Rightarrow> bindK (deref (creds s) c) (\<lambda>ptr.
                  if ptr = 0 then Inr (Some ENOENT, s)
                  else if cred_prepared b then Inr (None, s)
                  else (let (sid, s) = get_inode_sid k alloc (Some node) s in
                    if sid = MP4_TARGET_SID then
                      bindK (deref (blobs s) ptr) (\<lambda>_. Inr (None, s\<lparr>blobs := (blobs s)(ptr \<mapsto> sid)\<rparr>))
                    else Inr (None, s))))))"

definition mp4_cred_alloc_blank :: "nat \<Rightarrow> cred option \<Rightarrow> mp4 \<Rightarrow> (ret \<times> mp4) kres" where
  "mp4_cred_alloc_blank p cred s =
     (case cred of
        None \<Rightarrow> Inr (Some ENOENT, s)
      | Some c \<Rightarrow>
          if p = 0 then Inr (Some ENOMEM, s)
          else bindK (deref (creds s) c) (\<lambda>_.
            Inr (None, s\<lparr>creds := (creds s)(c \<mapsto> p), blobs := (blobs s)(p \<mapsto> MP4_NO_ACCESS)\<rparr>)))"

definition mp4_cred_free :: "kernel \<Rightarrow> cred option \<Rightarrow> mp4 \<Rightarrow> mp4 kres" where
  "mp4_cred_free k cred s =
     (case cred of
        None \<Rightarrow> Inr s
      | Some c \<Rightarrow> bindK (deref (creds s) c) (\<lambda>ptr.
          if ptr = 0 then Inr s
          else if ptr < PAGE_SIZE k then Inl BugOn
          else (let s = s\<lparr>creds := (creds s)(c \<mapsto> 7)\<rparr> in
            bindK (deref (blobs s) ptr) (\<lambda>_. Inr (s\<lparr>blobs := (blobs s)(ptr := None)\<rparr>)))))"

definition mp4_cred_prepare :: "nat \<Rightarrow> cred option \<Rightarrow> cred option \<Rightarrow> mp4 \<Rightarrow> (ret \<times> mp4) kres" where
  "mp4_cred_prepare p new old s =
     (case new of
        None \<Rightarrow> Inr (Some ENOENT, s)
      | Some n \<Rightarrow>
          bindK (nonnull old) (\<lambda>oc. bindK (deref (creds s) oc) (\<lambda>osec.
            if osec = 0 then
              (if p = 0 then Inr (Some ENOMEM, s)
               else bindK (deref (creds s) n) (\<lambda>_.
                 Inr (None, s\<lparr>creds := (creds s)(n \<mapsto> p), blobs := (blobs s)(p \<mapsto> MP4_NO_ACCESS)\<rparr>)))
            else if p = 0 then Inr (Some ENOMEM, s)
            else bindK (deref (blobs s) osec) (\<lambda>flags. bindK (deref (creds s) n) (\<lambda>_.
                 Inr (None, s\<lparr>creds := (creds s)(n \<mapsto> p), blobs := (blobs s)(p \<mapsto> flags)\<rparr>))))))"

section \<open>New inodes\<close>

text \<open>What \<open>mp4_inode_init_security\<close> stores through its three result pointers.\<close>

record xattr_out =
  x_name :: "string option"
  x_value :: "string option option"  \<comment> \<open>\<open>Some None\<close>: \<open>kstrdup\<close> failed and a null pointer is stored\<close>
  x_len :: "nat option"

definition no_xattr :: xattr_out where
  "no_xattr = \<lparr>x_name = None, x_value = None, x_len = None\<rparr>"

definition mp4_inode_init_security ::
  "cred option \<Rightarrow> bool \<Rightarrow> inode option \<Rightarrow> inode option \<Rightarrow> bool \<Rightarrow> bool \<Rightarrow> bool \<Rightarrow> mp4 \<Rightarrow> (ret \<times> xattr_out) kres" where
  "mp4_inode_init_security current dup_ok inode dir name value len s =
     (case current of
        None \<Rightarrow> Inr (Some EOPNOTSUPP, no_xattr)
      | Some c \<Rightarrow> bindK (deref (creds s) c) (\<lambda>sec.
          if sec = 0 then Inr (Some EOPNOTSUPP, no_xattr)
          else if inode = None \<or> dir = None then Inr (Some EOPNOTSUPP, no_xattr)
          else if \<not> name then Inr (Some ENOMEM, no_xattr)
          else (let x = no_xattr\<lparr>x_name := Some XATTR_MP4_SUFFIX\<rparr> in
            bindK (deref (blobs s) sec) (\<lambda>flags.
              if flags = MP4_TARGET_SID then
                (if \<not> value \<or> \<not> len then Inr (Some ENOMEM, x)
                 else if is_dir (the inode)
                 then Inr (Some EOPNOTSUPP, x\<lparr>x_value := Some (if dup_ok then Some ''dir-write'' else None), x_len := Some 10\<rparr>)
                 else Inr (Some EOPNOTSUPP, x\<lparr>x_value := Some (if dup_ok then Some ''read-write'' else None), x_len := Some 11\<rparr>))
              else Inr (Some EOPNOTSUPP, x)))))"

section \<open>Access checks\<close>

definition effective :: "may \<Rightarrow> u32 \<Rightarrow> u32" where
  "effective k msk = msk AND (MAY_EXEC k OR MAY_WRITE k OR MAY_READ k OR MAY_APPEND k OR MAY_ACCESS k)"

text \<open>The decision once the labels are known.\<close>

definition decide :: "may \<Rightarrow> sid \<Rightarrow> sid \<Rightarrow> bool \<Rightarrow> u32 \<Rightarrow> ret" where
  "decide k ssid osid dir msk =
     (if ssid = MP4_TARGET_SID then
        (if mp4_has_permission k ssid osid msk = None then None else Some EACCES)
      else if dir then None
      else if mp4_has_permission k ssid osid msk = None then None else Some EACCES)"

definition mp4_inode_permission ::
  "kernel \<Rightarrow> bool \<Rightarrow> bool \<Rightarrow> cred option \<Rightarrow> inode option \<Rightarrow> u32 \<Rightarrow> mp4 \<Rightarrow> (ret \<times> mp4) kres" where
  "mp4_inode_permission k alloc_path alloc_ctx current inode msk s =
     (case inode of
        None \<Rightarrow> Inr (Some EACCES, s)
      | Some i \<Rightarrow>
         (case d_find_alias k i of
            None \<Rightarrow> Inr (Some EACCES, s)
          | Some path_de \<Rightarrow> (let s = dget s in
              (case current of
                 None \<Rightarrow> Inr (Some EACCES, dput s)
               | Some c \<Rightarrow>
                   (let msk = effective (bits k) msk in
                    if msk = 0 then Inr (None, dput s)
                    else if \<not> alloc_path then Inr (Some EACCES, dput s)
                    else (let s = balloc s in
                      let path_ret = dentry_path_raw k path_de 256 in
                      if path_ret = PathNull then Inr (Some EACCES, bfree (dput s))
                      else bindK (mp4_should_skip_path path_ret) (\<lambda>skip.
                        if skip then Inr (None, bfree (dput s))
                        else bindK (deref (creds s) c) (\<lambda>sec.
                          if sec = 0 then Inr (Some EACCES, bfree (dput s))
                          else bindK (deref (blobs s) sec) (\<lambda>ssid.
                            (let (osid, s) = get_inode_sid k alloc_ctx (Some i) s in
                             Inr (decide (bits k) ssid osid (is_dir i) msk, bfree (dput s))))))))))))"

section \<open>Registration of the hooks\<close>

datatype hook = inode_init_security | inode_permission | bprm_set_creds | cred_alloc_blank | cred_free
  | cred_prepare

definition mp4_hooks :: "hook list" where
  "mp4_hooks = [inode_init_security, inode_permission, bprm_set_creds, cred_alloc_blank, cred_free, cred_prepare]"

text \<open>\<open>mp4_init\<close> appends the hooks to the active ones when the boot parameters enable the module.\<close>

definition mp4_init :: "(string \<Rightarrow> bool) \<Rightarrow> hook list \<Rightarrow> ret \<times> hook list" where
  "mp4_init security_module_enable active =
     (if \<not> security_module_enable ''mp4'' then (None, active) else (None, active @ mp4_hooks))"

end
