(* ===== verification/MP4_Correct.thy ===== *)
theory MP4_Correct
  imports MP4
begin

text \<open>
  Correctness of the security module: the life cycle of the credential labels as a transition
  system over the hooks, its invariant (no label is shared, lost, leaked or freed twice), how the
  target label spreads, and the decision of the access check.
\<close>

section \<open>The life cycle of credentials\<close>

text \<open>
  The kernel calls the credential hooks on structs it has just allocated (\<open>security\<close> null) or that
  are alive, and gives the memory of a cred back after \<open>mp4_cred_free\<close>.  \<open>p\<close> is the address the
  allocator returns in the hook, 0 when it fails.
\<close>

datatype mp4_event =
    Blank cred nat
  | Prepare cred cred nat
  | Exec linux_binprm bool
  | Free cred
  | Check cred inode u32 bool bool

definition alloc_ok :: "kernel \<Rightarrow> mp4 \<Rightarrow> nat \<Rightarrow> bool" where
  "alloc_ok k s p = (p = 0 \<or> (PAGE_SIZE k \<le> p \<and> blobs s p = None))"

definition new_cred :: "cred \<Rightarrow> mp4 \<Rightarrow> mp4" where
  "new_cred c s = s\<lparr>creds := (creds s)(c \<mapsto> 0)\<rparr>"

inductive mp4_trans :: "kernel \<Rightarrow> mp4 \<Rightarrow> mp4_event \<Rightarrow> mp4 \<Rightarrow> bool" for k where
  blank: "creds s c = None \<Longrightarrow> alloc_ok k s p \<Longrightarrow>
    mp4_cred_alloc_blank p (Some c) (new_cred c s) = Inr (r, t) \<Longrightarrow> mp4_trans k s (Blank c p) t"
| prepare: "creds s n = None \<Longrightarrow> creds s c \<noteq> None \<Longrightarrow> alloc_ok k s p \<Longrightarrow>
    mp4_cred_prepare p (Some n) (Some c) (new_cred n s) = Inr (r, t) \<Longrightarrow> mp4_trans k s (Prepare n c p) t"
| exec: "b_cred b = Some c \<Longrightarrow> creds s c \<noteq> None \<Longrightarrow>
    mp4_bprm_set_creds k al (Some b) s = Inr (r, t) \<Longrightarrow> mp4_trans k s (Exec b al) t"
| free: "creds s c \<noteq> None \<Longrightarrow> mp4_cred_free k (Some c) s = Inr t \<Longrightarrow>
    mp4_trans k s (Free c) (t\<lparr>creds := (creds t)(c := None)\<rparr>)"
| check: "creds s c \<noteq> None \<Longrightarrow> mp4_inode_permission k ap ac (Some c) (Some i) m s = Inr (r, t) \<Longrightarrow>
    mp4_trans k s (Check c i m ap ac) t"

inductive_cases blankE: "mp4_trans k s (Blank c p) t"
inductive_cases prepareE: "mp4_trans k s (Prepare n c p) t"

definition boot :: mp4 where
  "boot = \<lparr>creds = Map.empty, blobs = Map.empty, dentry_refs = 0, buffers = 0\<rparr>"

definition cred_label :: "mp4 \<Rightarrow> cred \<Rightarrow> sid option" where
  "cred_label s c = (case creds s c of None \<Rightarrow> None | Some p \<Rightarrow> if p = 0 then None else blobs s p)"

definition labels_owned :: "kernel \<Rightarrow> mp4 \<Rightarrow> bool" where
  "labels_owned k s =
     ((\<forall>c p. creds s c = Some p \<and> p \<noteq> 0 \<longrightarrow> PAGE_SIZE k \<le> p \<and> p \<in> dom (blobs s))
      \<and> (\<forall>c d p. creds s c = Some p \<and> creds s d = Some p \<and> p \<noteq> 0 \<longrightarrow> c = d)
      \<and> (\<forall>p \<in> dom (blobs s). p \<noteq> 0 \<and> (\<exists>c. creds s c = Some p)))"

definition mp4_inv :: "kernel \<Rightarrow> mp4 \<Rightarrow> bool" where
  "mp4_inv k s =
     (labels_owned k s \<and> ran (blobs s) \<subseteq> {MP4_NO_ACCESS, MP4_TARGET_SID}
      \<and> dentry_refs s = 0 \<and> buffers s = 0)"

section \<open>The hooks on a well-formed state\<close>

definition inode_sid :: "kernel \<Rightarrow> bool \<Rightarrow> inode \<Rightarrow> sid" where
  "inode_sid k al i =
     (if i_op i \<and> getxattr_op i \<and> al then
        (case d_find_alias k i of None \<Rightarrow> MP4_NO_ACCESS
         | Some de \<Rightarrow> (let (r, val) = getxattr k de XATTR_NAME_MP4 256 in
             if r < 0 then MP4_NO_ACCESS else cred_ctx_to_sid (ctx_buffer val)))
      else MP4_NO_ACCESS)"

lemma get_inode_sid_eq: "get_inode_sid k al (Some i) s = (inode_sid k al i, s)"
  by (simp add: get_inode_sid_def inode_sid_def count_defs Let_def case_prod_unfold split: option.split)

lemma labels_ownedI:
  assumes "\<And>c p. creds s c = Some p \<Longrightarrow> p \<noteq> 0 \<Longrightarrow> PAGE_SIZE k \<le> p \<and> (\<exists>f. blobs s p = Some f)"
    and "\<And>c d p. creds s c = Some p \<Longrightarrow> creds s d = Some p \<Longrightarrow> p \<noteq> 0 \<Longrightarrow> c = d"
    and "\<And>p f. blobs s p = Some f \<Longrightarrow> p \<noteq> 0 \<and> (\<exists>c. creds s c = Some p)"
  shows "labels_owned k s"
  using assms unfolding labels_owned_def dom_def by blast

lemma labels_ownedD:
  assumes "labels_owned k s" and "creds s c = Some p" and "p \<noteq> 0"
  shows "PAGE_SIZE k \<le> p" and "\<exists>f. blobs s p = Some f"
  using assms unfolding labels_owned_def by blast+

lemma labels_owned_unique:
  "labels_owned k s \<Longrightarrow> creds s c = Some p \<Longrightarrow> creds s d = Some p \<Longrightarrow> p \<noteq> 0 \<Longrightarrow> c = d"
  unfolding labels_owned_def by blast

lemma labels_owned_owner:
  "labels_owned k s \<Longrightarrow> blobs s p = Some f \<Longrightarrow> p \<noteq> 0 \<and> (\<exists>c. creds s c = Some p)"
  unfolding labels_owned_def by blast

lemma labels_owned_add:
  assumes "labels_owned k s" and "creds s c = None" and "alloc_ok k s p" and "p \<noteq> 0"
    and "creds t = (creds s)(c \<mapsto> p)" and "blobs t = (blobs s)(p \<mapsto> f)"
  shows "labels_owned k t"
proof (rule labels_ownedI, goal_cases)
  case (1 d q)
  then show ?case using assms labels_ownedD [OF assms(1), of d q] by (auto simp: alloc_ok_def split: if_splits)
next
  case (2 d e q)
  then show ?case
    using assms labels_owned_unique [OF assms(1)] labels_ownedD(2) [OF assms(1) _ assms(4)]
    by (auto simp: alloc_ok_def split: if_splits)
next
  case (3 q g)
  then show ?case
    using assms labels_owned_owner [OF assms(1), of q g] by (fastforce split: if_splits)
qed

lemma labels_owned_new:
  "labels_owned k s \<Longrightarrow> creds s c = None \<Longrightarrow> labels_owned k (new_cred c s)"
  by (rule labels_ownedI)
    (auto simp: new_cred_def dest: labels_ownedD labels_owned_unique labels_owned_owner split: if_splits,
     metis labels_owned_owner option.distinct(1))

lemma labels_owned_flags:
  "labels_owned k s \<Longrightarrow> p \<in> dom (blobs s) \<Longrightarrow> labels_owned k (s\<lparr>blobs := (blobs s)(p \<mapsto> f)\<rparr>)"
  unfolding labels_owned_def by (auto simp: dom_def)

lemma labels_owned_free:
  assumes "labels_owned k s" and "creds s c = Some p"
  shows "labels_owned k (s\<lparr>creds := (creds s)(c := None), blobs := (if p = 0 then blobs s else (blobs s)(p := None))\<rparr>)"
proof (rule labels_ownedI, goal_cases)
  case (1 d q)
  then show ?case
    using assms labels_ownedD [OF assms(1), of d q] labels_owned_unique [OF assms(1) assms(2), of d]
    by (auto split: if_splits)
next
  case (2 d e q)
  then show ?case using labels_owned_unique [OF assms(1), of d q e] by (auto split: if_splits)
next
  case (3 q g)
  then obtain d where "q \<noteq> 0" "creds s d = Some q" "q \<noteq> p \<or> p = 0"
    using labels_owned_owner [OF assms(1), of q g] by (auto split: if_splits)
  then show ?case using assms(2) by (auto intro!: exI [of _ d])
qed

text \<open>Each hook on a live credential, without the error plumbing.\<close>

lemma alloc_blank_eq:
  "mp4_cred_alloc_blank p (Some c) (new_cred c s) = Inr
     (if p = 0 then (Some ENOMEM, new_cred c s)
      else (None, s\<lparr>creds := (creds s)(c \<mapsto> p), blobs := (blobs s)(p \<mapsto> MP4_NO_ACCESS)\<rparr>))"
  by (simp add: mp4_cred_alloc_blank_def new_cred_def)

lemma prepare_eq:
  assumes "labels_owned k s" and "creds s n = None" and "creds s c = Some q"
  shows "mp4_cred_prepare p (Some n) (Some c) (new_cred n s) = Inr
     (if p = 0 then (Some ENOMEM, new_cred n s)
      else (None, s\<lparr>creds := (creds s)(n \<mapsto> p),
        blobs := (blobs s)(p \<mapsto> (case cred_label s c of None \<Rightarrow> MP4_NO_ACCESS | Some f \<Rightarrow> f))\<rparr>))"
proof -
  have "c \<noteq> n" using assms by auto
  then show ?thesis
    using assms labels_ownedD(2) [of k s c q]
    by (auto simp: mp4_cred_prepare_def new_cred_def deref_def cred_label_def)
qed

lemma cred_free_eq:
  assumes "labels_owned k s" and "creds s c = Some p"
  shows "mp4_cred_free k (Some c) s = Inr
     (if p = 0 then s else s\<lparr>creds := (creds s)(c \<mapsto> 7), blobs := (blobs s)(p := None)\<rparr>)"
proof (cases "p = 0")
  case False
  then show ?thesis using assms labels_ownedD [OF assms False] by (auto simp: mp4_cred_free_def deref_def)
qed (simp add: mp4_cred_free_def deref_def assms)

lemma bprm_eq:
  assumes "labels_owned k s" and "b_cred b = Some c" and "creds s c = Some p"
  shows "mp4_bprm_set_creds k al (Some b) s = Inr
     (case b_file b of
        Some (Some node) \<Rightarrow>
          if p = 0 then (Some ENOENT, s)
          else if \<not> cred_prepared b \<and> inode_sid k al node = MP4_TARGET_SID
          then (None, s\<lparr>blobs := (blobs s)(p \<mapsto> MP4_TARGET_SID)\<rparr>) else (None, s)
      | _ \<Rightarrow> (Some ENOENT, s))"
  using assms labels_ownedD(2) [of k s c p]
  by (auto simp: mp4_bprm_set_creds_def deref_def get_inode_sid_eq split: option.split)

lemma put_get [simp]: "bfree (dput (balloc (dget s))) = s" "dput (dget s) = s"
  by (simp_all add: count_defs)

lemma balloc_dget_simps [simp]:
  "creds (balloc (dget s)) = creds s" "blobs (balloc (dget s)) = blobs s"
  by (simp_all add: count_defs)

text \<open>
  The access check as a function of the labels: what it returns when it does not run into a fault,
  and that it leaves no trace in the state.
\<close>

definition access_result :: "kernel \<Rightarrow> bool \<Rightarrow> bool \<Rightarrow> sid option \<Rightarrow> inode \<Rightarrow> u32 \<Rightarrow> ret" where
  "access_result k ap ac subject i msk =
     (case d_find_alias k i of None \<Rightarrow> Some EACCES
      | Some de \<Rightarrow>
          if effective (bits k) msk = 0 then None
          else if \<not> ap then Some EACCES
          else (case dentry_path_raw k de 256 of
              Path path \<Rightarrow> if skipped_path path then None
                else (case subject of None \<Rightarrow> Some EACCES
                  | Some ssid \<Rightarrow>
                      decide (bits k) ssid (inode_sid k ac i) (is_dir i) (effective (bits k) msk))
            | _ \<Rightarrow> Some EACCES))"

text \<open>The path printer reports an error for the alias of the inode, and the check gets as far as the path.\<close>

definition path_fault :: "kernel \<Rightarrow> bool \<Rightarrow> inode \<Rightarrow> u32 \<Rightarrow> bool" where
  "path_fault k ap i msk =
     (\<exists>de. d_find_alias k i = Some de \<and> effective (bits k) msk \<noteq> 0 \<and> ap \<and> dentry_path_raw k de 256 = PathErr)"

lemma permission_eq:
  assumes "labels_owned k s" and "creds s c = Some p"
  shows "mp4_inode_permission k ap ac (Some c) (Some i) msk s =
    (if path_fault k ap i msk then Inl ErrPtrDeref else Inr (access_result k ap ac (cred_label s c) i msk, s))"
proof -
  have "p = 0 \<or> (\<exists>f. blobs s p = Some f)" using labels_ownedD(2) assms by blast
  then show ?thesis
    using assms(2)
    by (auto simp: mp4_inode_permission_def access_result_def path_fault_def Let_def should_skip_eq
        get_inode_sid_eq deref_def cred_label_def split: option.split path_ptr.split)
qed

lemma permission_state:
  assumes "mp4_inode_permission k ap ac cur i msk s = Inr (r, t)"
  shows "t = s"
  using assms
  by (auto simp: mp4_inode_permission_def Let_def get_inode_sid_eq kres_simps
      split: option.splits if_splits)

lemma bprm_state:
  assumes "mp4_bprm_set_creds k al (Some b) s = Inr (r, t)" and "labels_owned k s"
    and "b_cred b = Some c" and "creds s c = Some p"
  shows "t = s \<or> p \<noteq> 0 \<and> t = s\<lparr>blobs := (blobs s)(p \<mapsto> MP4_TARGET_SID)\<rparr>
    \<and> (\<exists>node. b_file b = Some (Some node) \<and> \<not> cred_prepared b \<and> inode_sid k al node = MP4_TARGET_SID)"
  using assms(1) unfolding bprm_eq [OF assms(2-4)] by (auto split: option.splits if_splits)

section \<open>The invariant\<close>

lemma ran_upd_subset: "ran m \<subseteq> A \<Longrightarrow> v \<in> A \<Longrightarrow> ran (m(p \<mapsto> v)) \<subseteq> A"
  by (auto simp: ran_def)

lemma ran_del_subset: "ran m \<subseteq> A \<Longrightarrow> ran (m(p := None)) \<subseteq> A"
  by (auto simp: ran_def)

lemma cred_label_in: "mp4_inv k s \<Longrightarrow> cred_label s c = Some f \<Longrightarrow> f \<in> {MP4_NO_ACCESS, MP4_TARGET_SID}"
  by (auto simp: mp4_inv_def cred_label_def ran_def split: option.splits if_splits)

lemma mp4_inv_new: "mp4_inv k s \<Longrightarrow> creds s c = None \<Longrightarrow> mp4_inv k (new_cred c s)"
  by (simp add: mp4_inv_def labels_owned_new) (simp add: new_cred_def)

lemma mp4_inv_add:
  assumes "mp4_inv k s" and "creds s c = None" and "alloc_ok k s p" and "p \<noteq> 0"
    and "f \<in> {MP4_NO_ACCESS, MP4_TARGET_SID}"
  shows "mp4_inv k (s\<lparr>creds := (creds s)(c \<mapsto> p), blobs := (blobs s)(p \<mapsto> f)\<rparr>)"
proof -
  have "labels_owned k (s\<lparr>creds := (creds s)(c \<mapsto> p), blobs := (blobs s)(p \<mapsto> f)\<rparr>)"
    by (rule labels_owned_add [of k s c p _ f]) (use assms(1-4) in \<open>simp_all add: mp4_inv_def\<close>)
  moreover have "ran ((blobs s)(p \<mapsto> f)) \<subseteq> {MP4_NO_ACCESS, MP4_TARGET_SID}"
    using assms(1,5) unfolding mp4_inv_def by (intro ran_upd_subset) blast+
  ultimately show ?thesis using assms(1) by (simp add: mp4_inv_def)
qed

lemma mp4_inv_step:
  assumes "mp4_trans k s l t" and inv: "mp4_inv k s"
  shows "mp4_inv k t"
  using assms(1)
proof cases
  case (blank c p r)
  then have "t = (if p = 0 then new_cred c s
      else s\<lparr>creds := (creds s)(c \<mapsto> p), blobs := (blobs s)(p \<mapsto> MP4_NO_ACCESS)\<rparr>)"
    by (simp add: alloc_blank_eq split: if_splits)
  then show ?thesis
    using mp4_inv_new [OF inv blank(2)] mp4_inv_add [OF inv blank(2,3), of MP4_NO_ACCESS] by simp
next
  case (prepare n c p r)
  then obtain q where q: "creds s c = Some q" by blast
  define f where "f = (case cred_label s c of None \<Rightarrow> MP4_NO_ACCESS | Some f \<Rightarrow> f)"
  have f: "f \<in> {MP4_NO_ACCESS, MP4_TARGET_SID}"
    using cred_label_in [OF inv, of c] by (auto simp: f_def split: option.split)
  have own: "labels_owned k s" using inv by (simp add: mp4_inv_def)
  have t: "t = (if p = 0 then new_cred n s else s\<lparr>creds := (creds s)(n \<mapsto> p), blobs := (blobs s)(p \<mapsto> f)\<rparr>)"
    using prepare prepare_eq [OF own prepare(2) q] by (simp add: f_def split: if_splits)
  show ?thesis
    using mp4_inv_new [OF inv prepare(2)] mp4_inv_add [OF inv prepare(2,4) _ f] by (simp add: t)
next
  case (exec b c al r)
  then obtain p where p: "creds s c = Some p" by blast
  have own: "labels_owned k s" using inv by (simp add: mp4_inv_def)
  have "ran ((blobs s)(p \<mapsto> MP4_TARGET_SID)) \<subseteq> {MP4_NO_ACCESS, MP4_TARGET_SID}"
    using inv unfolding mp4_inv_def by (intro ran_upd_subset) blast+
  then show ?thesis
    using bprm_state [OF exec(4) own exec(2) p] inv labels_owned_flags [OF own, of p MP4_TARGET_SID]
      labels_ownedD(2) [OF own p]
    unfolding mp4_inv_def by (elim disjE conjE exE) auto
next
  case (free c t0)
  then obtain p where p: "creds s c = Some p" by blast
  have own: "labels_owned k s" using inv by (simp add: mp4_inv_def)
  have t: "t = s\<lparr>creds := (creds s)(c := None), blobs := (if p = 0 then blobs s else (blobs s)(p := None))\<rparr>"
    using free cred_free_eq [OF own p] by (auto split: if_splits)
  have "ran (if p = 0 then blobs s else (blobs s)(p := None)) \<subseteq> {MP4_NO_ACCESS, MP4_TARGET_SID}"
    using inv ran_del_subset [of "blobs s" _ p] unfolding mp4_inv_def by presburger
  then show ?thesis
    using labels_owned_free [OF own p] inv unfolding t mp4_inv_def by simp
next
  case (check c ap ac i m r)
  then show ?thesis using inv permission_state by blast
qed

interpretation lsm: safety_system "mp4_trans k" "\<lambda>s. s = boot" "mp4_inv k" for k
  by unfold_locales (simp add: mp4_inv_def labels_owned_def boot_def, rule mp4_inv_step)

section \<open>Labels along a step\<close>

lemma cred_label_new:
  "creds s c = None \<Longrightarrow> cred_label (new_cred c s) d = cred_label s d"
  by (auto simp: cred_label_def new_cred_def split: option.split)

lemma cred_label_add:
  assumes "labels_owned k s" and "alloc_ok k s p" and "p \<noteq> 0"
  shows "cred_label (s\<lparr>creds := (creds s)(c \<mapsto> p), blobs := (blobs s)(p \<mapsto> f)\<rparr>) d =
    (if d = c then Some f else cred_label s d)"
proof -
  have "q \<noteq> p" if "creds s d = Some q" "q \<noteq> 0" for q
    using assms labels_ownedD(2) [OF assms(1) that] by (auto simp: alloc_ok_def)
  then show ?thesis using assms(3) by (auto simp: cred_label_def split: option.split)
qed

lemma cred_label_flag:
  assumes "labels_owned k s" and "creds s c = Some p" and "p \<noteq> 0"
  shows "cred_label (s\<lparr>blobs := (blobs s)(p \<mapsto> f)\<rparr>) d = (if d = c then Some f else cred_label s d)"
proof (cases "d = c")
  case False
  then have "\<And>q. creds s d = Some q \<Longrightarrow> q \<noteq> 0 \<Longrightarrow> q \<noteq> p"
    using labels_owned_unique [OF assms(1,2), of d] by auto
  then show ?thesis using False by (simp add: cred_label_def split: option.split)
qed (simp add: cred_label_def assms)

lemma cred_label_free:
  assumes "labels_owned k s" and "creds s c = Some p"
  shows "cred_label (s\<lparr>creds := (creds s)(c := None), blobs := (if p = 0 then blobs s else (blobs s)(p := None))\<rparr>) d =
    (if d = c then None else cred_label s d)"
proof (cases "d = c")
  case False
  then have "\<And>q. creds s d = Some q \<Longrightarrow> q \<noteq> 0 \<Longrightarrow> q \<noteq> p"
    using labels_owned_unique [OF assms(1,2), of d] by auto
  then show ?thesis using False by (simp add: cred_label_def split: option.split)
qed (simp add: cred_label_def assms)

text \<open>The label of every credential after a step, event by event.\<close>

definition label_after :: "kernel \<Rightarrow> mp4 \<Rightarrow> mp4_event \<Rightarrow> cred \<Rightarrow> sid option" where
  "label_after k s l d =
     (case l of
        Blank c p \<Rightarrow> if d = c \<and> p \<noteq> 0 then Some MP4_NO_ACCESS else cred_label s d
      | Prepare n c p \<Rightarrow>
          if d = n \<and> p \<noteq> 0 then Some (case cred_label s c of None \<Rightarrow> MP4_NO_ACCESS | Some f \<Rightarrow> f)
          else cred_label s d
      | Exec b al \<Rightarrow>
          (case b_file b of
             Some (Some node) \<Rightarrow>
               if b_cred b = Some d \<and> cred_label s d \<noteq> None \<and> \<not> cred_prepared b
                 \<and> inode_sid k al node = MP4_TARGET_SID
               then Some MP4_TARGET_SID else cred_label s d
           | _ \<Rightarrow> cred_label s d)
      | Free c \<Rightarrow> if d = c then None else cred_label s d
      | Check _ _ _ _ _ \<Rightarrow> cred_label s d)"

lemma step_labels:
  assumes "mp4_trans k s l t" and own: "labels_owned k s"
  shows "cred_label t d = label_after k s l d"
  using assms(1)
proof cases
  case (blank c p r)
  then have "t = (if p = 0 then new_cred c s
      else s\<lparr>creds := (creds s)(c \<mapsto> p), blobs := (blobs s)(p \<mapsto> MP4_NO_ACCESS)\<rparr>)"
    by (simp add: alloc_blank_eq split: if_splits)
  then show ?thesis
    using blank cred_label_new cred_label_add [OF own, of p] by (simp add: label_after_def)
next
  case (prepare n c p r)
  then obtain q where q: "creds s c = Some q" by blast
  have "t = (if p = 0 then new_cred n s else s\<lparr>creds := (creds s)(n \<mapsto> p),
      blobs := (blobs s)(p \<mapsto> (case cred_label s c of None \<Rightarrow> MP4_NO_ACCESS | Some f \<Rightarrow> f))\<rparr>)"
    using prepare(5) unfolding prepare_eq [OF own prepare(2) q] by (simp split: if_splits)
  then show ?thesis
    using prepare cred_label_new cred_label_add [OF own, of p] by (simp add: label_after_def)
next
  case (exec b c al r)
  then obtain p where p: "creds s c = Some p" by blast
  then have "cred_label s c = None \<longleftrightarrow> p = 0"
    using labels_ownedD(2) [OF own p] by (auto simp: cred_label_def)
  then show ?thesis
    using exec p bprm_eq [OF own exec(2) p, of al] cred_label_flag [OF own p]
    by (auto simp: label_after_def split: option.splits if_splits)
next
  case (free c t0)
  then obtain p where p: "creds s c = Some p" by blast
  then have "t = s\<lparr>creds := (creds s)(c := None), blobs := (if p = 0 then blobs s else (blobs s)(p := None))\<rparr>"
    using free cred_free_eq [OF own p] by (auto split: if_splits)
  then show ?thesis using free cred_label_free [OF own p] by (simp add: label_after_def)
next
  case (check c ap ac i m r)
  then have "t = s" using permission_state by blast
  then show ?thesis using check by (simp add: label_after_def)
qed

lemma reachable_owned: "runs (mp4_trans k) boot ls s \<Longrightarrow> labels_owned k s"
  using lsm.run_inv [OF refl, of k ls s] by (simp add: mp4_inv_def)

lemma target_kept:
  assumes "mp4_trans k s l t" and "labels_owned k s" and "cred_label s c = Some MP4_TARGET_SID" and "l \<noteq> Free c"
  shows "cred_label t c = Some MP4_TARGET_SID"
proof -
  have "creds s c \<noteq> None" using assms(3) by (auto simp: cred_label_def split: option.splits)
  then show ?thesis
    using assms(1,3,4) unfolding step_labels [OF assms(1,2)]
    by (auto simp: label_after_def elim: blankE prepareE split: mp4_event.split option.split)
qed

section \<open>A concrete system\<close>

text \<open>
  One inode whose alias is entry 1, labelled \<open>target\<close>, under \<open>/home/target\<close>; another, entry 2,
  labelled \<open>read-write\<close>, and a path of 300 bytes at entry 3.
\<close>

definition demo_path :: "dentry \<Rightarrow> string" where
  "demo_path de = (if de = 3 then CHR ''/'' # replicate 299 CHR ''a'' else ''/home/target'')"

definition demo_kernel :: kernel where
  "demo_kernel = \<lparr>d_find_alias = (\<lambda>i. Some (ino i)),
     getxattr = (\<lambda>de _ _. if de = 1 then (6, ''target'') else if de = 2 then (10, ''read-write'') else (- 61, [])),
     dentry_path_raw = (\<lambda>de len. if length (demo_path de) < len then Path (demo_path de) else PathErr),
     PAGE_SIZE = 4096, bits = fs_may\<rparr>"

definition demo_inode :: "nat \<Rightarrow> inode" where
  "demo_inode n = \<lparr>i_op = True, getxattr_op = True, is_dir = False, ino = n\<rparr>"

definition demo_bprm :: linux_binprm where
  "demo_bprm = \<lparr>b_file = Some (Some (demo_inode 1)), b_cred = Some 10, cred_prepared = False\<rparr>"

definition demo_state :: "sid \<Rightarrow> mp4" where
  "demo_state f = boot\<lparr>creds := [10 \<mapsto> 5000], blobs := [5000 \<mapsto> f]\<rparr>"

lemma ctx_buffer_cstring: "length v \<le> 256 \<Longrightarrow> NUL \<notin> set v \<Longrightarrow> cstring (ctx_buffer v) = v"
  unfolding ctx_buffer_def cstring_def
  by (subst takeWhile_append2) (auto simp: takeWhile_replicate)

lemma demo_sid:
  "inode_sid demo_kernel True (demo_inode 1) = MP4_TARGET_SID"
  "inode_sid demo_kernel True (demo_inode 2) = MP4_READ_WRITE"
  by (simp_all add: inode_sid_def demo_kernel_def demo_inode_def cred_ctx_to_sid_def strcmp_eq_iff
      ctx_buffer_cstring NUL_def sid_defs)

lemma demo_blank: "runs (mp4_trans demo_kernel) boot [Blank 10 5000] (demo_state MP4_NO_ACCESS)"
  by (rule runs_one, rule mp4_trans.blank [where r = None])
    (simp_all add: alloc_blank_eq demo_state_def, simp_all add: boot_def alloc_ok_def demo_kernel_def)

lemma demo_exec_step: "mp4_trans demo_kernel (demo_state MP4_NO_ACCESS) (Exec demo_bprm True) (demo_state MP4_TARGET_SID)"
proof (rule mp4_trans.exec [where c = 10 and r = None])
  have own: "labels_owned demo_kernel (demo_state MP4_NO_ACCESS)" using demo_blank by (rule reachable_owned)
  have c: "b_cred demo_bprm = Some 10" "creds (demo_state MP4_NO_ACCESS) 10 = Some 5000"
    by (simp_all add: demo_bprm_def demo_state_def)
  show "mp4_bprm_set_creds demo_kernel True (Some demo_bprm) (demo_state MP4_NO_ACCESS) = Inr (None, demo_state MP4_TARGET_SID)"
    unfolding bprm_eq [OF own c] using demo_sid(1) by (simp add: demo_bprm_def) (simp add: demo_state_def)
qed (simp_all add: demo_bprm_def demo_state_def)

lemma demo_exec: "runs (mp4_trans demo_kernel) boot [Blank 10 5000, Exec demo_bprm True] (demo_state MP4_TARGET_SID)"
  using runs_step [OF demo_blank demo_exec_step] by simp

section \<open>Properties\<close>

text \<open>
  C7: In every state the kernel can reach through the credential and access hooks, each credential's
  label is allocated memory above the first page that no other credential shares, every allocated
  label belongs to a live credential (so none is leaked, and none is left when all credentials are
  gone), labels are only the default or the target label, and no reference to a directory entry
  and no temporary buffer is left behind.\<close>
theorem credential_labels_are_owned:
  assumes "runs (mp4_trans k) boot ls s"
  shows "mp4_inv k s \<and> (creds s = Map.empty \<longrightarrow> blobs s = Map.empty)"
proof -
  have inv: "mp4_inv k s" using lsm.run_inv [OF refl assms] .
  moreover have "blobs s = Map.empty" if "creds s = Map.empty"
    using labels_owned_owner [OF reachable_owned [OF assms]] that by fastforce
  ultimately show ?thesis by simp
qed

theorem credential_labels_are_owned_witness: "mp4_inv demo_kernel (demo_state MP4_TARGET_SID)"
  using credential_labels_are_owned [OF demo_exec] by simp

text \<open>
  \<open>dentry_path_raw\<close> as the kernel documents it: the path with its terminating NUL is written into the
  buffer, or an error pointer is returned when it does not fit.
\<close>

definition prints_paths :: "kernel \<Rightarrow> (dentry \<Rightarrow> string) \<Rightarrow> bool" where
  "prints_paths k full =
     (\<forall>de len. dentry_path_raw k de len = (if length (full de) < len then Path (full de) else PathErr))"

lemma path_fault_long:
  "prints_paths k full \<Longrightarrow> path_fault k ap i msk \<longleftrightarrow>
     (\<exists>de. d_find_alias k i = Some de \<and> effective (bits k) msk \<noteq> 0 \<and> ap \<and> 256 \<le> length (full de))"
  by (auto simp: path_fault_def prints_paths_def not_less)

lemma init_security_ok: "labels_owned k s \<Longrightarrow> creds s c = Some p \<Longrightarrow>
    ok (mp4_inode_init_security (Some c) dup_ok inode dir name value len s)"
  using labels_ownedD(2) [of k s c p]
  by (auto simp: mp4_inode_init_security_def deref_def Let_def)

text \<open>
  C21: Which hooks fault on reachable states.  Giving a new credential a label, freeing a live
  credential, preparing a new one from a live one, executing a program with a live credential and
  labelling a new inode all return normally: there is no use after free, no double free and no
  failing \<open>BUG_ON\<close>.  The access check with a live credential faults in exactly one case: the inode has
  an alias, an access bit of the request counts, the path buffer was allocated and \<open>dentry_path_raw\<close>
  returned an error pointer, which passes the test for null and is dereferenced by the first
  \<open>strncmp\<close>; in every other case it returns.  With the documented \<open>dentry_path_raw\<close> that is the case
  of a path of 256 bytes or more.\<close>
theorem credential_hooks_faults:
  assumes "runs (mp4_trans k) boot ls s" and "creds s c \<noteq> None"
  shows "ok (mp4_cred_free k (Some c) s)
    \<and> (creds s n = None \<longrightarrow> ok (mp4_cred_alloc_blank p (Some n) (new_cred n s))
        \<and> ok (mp4_cred_prepare p (Some n) (Some c) (new_cred n s)))
    \<and> (b_cred b = Some c \<longrightarrow> ok (mp4_bprm_set_creds k al (Some b) s))
    \<and> ok (mp4_inode_init_security (Some c) dup_ok inode dir name value len s)
    \<and> (if \<exists>de. d_find_alias k i = Some de \<and> effective (bits k) m \<noteq> 0 \<and> ap \<and> dentry_path_raw k de 256 = PathErr
       then mp4_inode_permission k ap ac (Some c) (Some i) m s = Inl ErrPtrDeref
       else ok (mp4_inode_permission k ap ac (Some c) (Some i) m s))
    \<and> (\<forall>full. prints_paths k full \<longrightarrow>
        (ok (mp4_inode_permission k ap ac (Some c) (Some i) m s) \<longleftrightarrow>
         \<not> (\<exists>de. d_find_alias k i = Some de \<and> effective (bits k) m \<noteq> 0 \<and> ap \<and> 256 \<le> length (full de))))"
proof -
  obtain q where q: "creds s c = Some q" using assms(2) by blast
  note own = reachable_owned [OF assms(1)]
  note check = permission_eq [OF own q, of ap ac i m]
  have "ok (mp4_cred_free k (Some c) s)" unfolding cred_free_eq [OF own q] by simp
  moreover have "ok (mp4_cred_alloc_blank p (Some n) (new_cred n s))" unfolding alloc_blank_eq by simp
  moreover have "ok (mp4_cred_prepare p (Some n) (Some c) (new_cred n s))" if "creds s n = None"
    unfolding prepare_eq [OF own that q] by simp
  moreover have "ok (mp4_bprm_set_creds k al (Some b) s)" if "b_cred b = Some c"
    unfolding bprm_eq [OF own that q] by simp
  moreover have "if path_fault k ap i m
       then mp4_inode_permission k ap ac (Some c) (Some i) m s = Inl ErrPtrDeref
       else ok (mp4_inode_permission k ap ac (Some c) (Some i) m s)" unfolding check by simp
  moreover have "ok (mp4_inode_permission k ap ac (Some c) (Some i) m s) \<longleftrightarrow>
      \<not> (\<exists>de. d_find_alias k i = Some de \<and> effective (bits k) m \<noteq> 0 \<and> ap \<and> 256 \<le> length (full de))"
    if "prints_paths k full" for full
    unfolding check path_fault_long [OF that] by (simp only: ok_simps split: if_split) blast
  ultimately show ?thesis
    using init_security_ok [OF own q] unfolding path_fault_def by blast
qed

theorem credential_hooks_faults_witness:
  "ok (mp4_cred_free demo_kernel (Some 10) (demo_state MP4_TARGET_SID))
   \<and> ok (mp4_cred_alloc_blank 6000 (Some 11) (new_cred 11 (demo_state MP4_TARGET_SID)))
   \<and> ok (mp4_cred_prepare 6000 (Some 11) (Some 10) (new_cred 11 (demo_state MP4_TARGET_SID)))
   \<and> ok (mp4_bprm_set_creds demo_kernel True (Some demo_bprm) (demo_state MP4_TARGET_SID))
   \<and> ok (mp4_inode_init_security (Some 10) True None None True True True (demo_state MP4_TARGET_SID))
   \<and> ok (mp4_inode_permission demo_kernel True True (Some 10) (Some (demo_inode 2)) 2 (demo_state MP4_TARGET_SID))
   \<and> mp4_inode_permission demo_kernel True True (Some 10) (Some (demo_inode 3)) 2 (demo_state MP4_TARGET_SID)
       = Inl ErrPtrDeref
   \<and> prints_paths demo_kernel demo_path \<and> 256 \<le> length (demo_path 3)
   \<and> \<not> ok (mp4_inode_permission demo_kernel True True (Some 10) (Some (demo_inode 3)) 2 (demo_state MP4_TARGET_SID))"
proof -
  let ?s = "demo_state MP4_TARGET_SID"
  have pp: "prints_paths demo_kernel demo_path" "256 \<le> length (demo_path 3)"
    by (simp_all add: prints_paths_def demo_kernel_def demo_path_def)
  have c: "creds ?s 10 \<noteq> None" "creds ?s 11 = None" "b_cred demo_bprm = Some 10"
    by (simp_all add: demo_state_def boot_def demo_bprm_def)
  have e: "effective (bits demo_kernel) 2 \<noteq> 0" by (simp add: effective_def demo_kernel_def fs_may_def)
  have a: "d_find_alias demo_kernel (demo_inode i) = Some i" for i by (simp add: demo_kernel_def demo_inode_def)
  have p: "dentry_path_raw demo_kernel 2 256 \<noteq> PathErr" "dentry_path_raw demo_kernel 3 256 = PathErr"
    by (simp_all add: demo_kernel_def demo_path_def)
  note hooks = credential_hooks_faults [OF demo_exec c(1), of 11 6000 demo_bprm True True None None True True True
      _ 2 True True]
  show ?thesis using hooks [of "demo_inode 2"] hooks [of "demo_inode 3"] c(2,3) e p pp unfolding a by auto
qed

lemma target_origin:
  assumes "runs (mp4_trans k) boot ls s" and "mp4_trans k s l t" and "cred_label t c = Some MP4_TARGET_SID"
  shows "cred_label s c = Some MP4_TARGET_SID
    \<or> (\<exists>b al node. l = Exec b al \<and> b_cred b = Some c \<and> b_file b = Some (Some node)
         \<and> fst (get_inode_sid k al (Some node) s) = MP4_TARGET_SID)
    \<or> (\<exists>d p. l = Prepare c d p \<and> cred_label s d = Some MP4_TARGET_SID)"
  using assms(3) unfolding step_labels [OF assms(2) reachable_owned [OF assms(1)]]
  by (auto simp: label_after_def get_inode_sid_eq sid_defs split: mp4_event.splits option.splits if_splits)

lemma target_stays:
  assumes "runs (mp4_trans k) boot ls s" and "runs (mp4_trans k) s ks t"
    and "cred_label s c = Some MP4_TARGET_SID" and "Free c \<notin> set ks"
  shows "cred_label t c = Some MP4_TARGET_SID
    \<and> (\<forall>n p u. mp4_trans k t (Prepare n c p) u \<and> p \<noteq> 0 \<longrightarrow> cred_label u n = Some MP4_TARGET_SID)"
proof -
  have "cred_label t c = Some MP4_TARGET_SID"
    using assms(2,1,3,4)
  proof (induction rule: runs.induct)
    case (runs_step s ks t l u)
    have "labels_owned k t" using runs_append [OF runs_step(1) runs_step(4)] by (rule reachable_owned)
    then show ?case using runs_step by (intro target_kept [of k t l u]) auto
  qed
  moreover have "labels_owned k t" using runs_append [OF assms(2,1)] by (rule reachable_owned)
  ultimately show ?thesis by (auto simp: step_labels label_after_def)
qed

text \<open>
  C17: The life of the target label.  In every reachable state, a step labels a credential as the
  target only by executing a program file that carries the \<open>target\<close> attribute or by preparing the
  credential from one that is the target.  And a target credential stays one along every run until
  it is freed, whatever programs are executed with it, and a credential prepared from it (the child
  of a fork) is a target too: the confinement cannot be left by executing another program.
\<close>

theorem target_label_lifecycle:
  assumes "runs (mp4_trans k) boot ls s"
  shows "(\<forall>l t c. mp4_trans k s l t \<and> cred_label t c = Some MP4_TARGET_SID \<longrightarrow>
      cred_label s c = Some MP4_TARGET_SID
      \<or> (\<exists>b al node. l = Exec b al \<and> b_cred b = Some c \<and> b_file b = Some (Some node)
           \<and> fst (get_inode_sid k al (Some node) s) = MP4_TARGET_SID)
      \<or> (\<exists>d p. l = Prepare c d p \<and> cred_label s d = Some MP4_TARGET_SID))
    \<and> (\<forall>ks t c. runs (mp4_trans k) s ks t \<and> cred_label s c = Some MP4_TARGET_SID \<and> Free c \<notin> set ks \<longrightarrow>
      cred_label t c = Some MP4_TARGET_SID
      \<and> (\<forall>n p u. mp4_trans k t (Prepare n c p) u \<and> p \<noteq> 0 \<longrightarrow> cred_label u n = Some MP4_TARGET_SID))"
  using target_origin [OF assms] target_stays [OF assms] by meson

theorem target_label_lifecycle_witness:
  "fst (get_inode_sid demo_kernel True (Some (demo_inode 1)) (demo_state MP4_NO_ACCESS)) = MP4_TARGET_SID
   \<and> (\<exists>t. mp4_trans demo_kernel (demo_state MP4_TARGET_SID) (Check 10 (demo_inode 2) 2 True True) t
        \<and> cred_label t 10 = Some MP4_TARGET_SID)"
proof
  have l: "cred_label (demo_state MP4_TARGET_SID) 10 = Some MP4_TARGET_SID"
    "cred_label (demo_state MP4_NO_ACCESS) 10 \<noteq> Some MP4_TARGET_SID"
    by (simp_all add: cred_label_def demo_state_def sid_defs)
  from target_label_lifecycle [OF demo_blank, THEN conjunct1, rule_format, OF conjI, OF demo_exec_step l(1)] l(2)
  show "fst (get_inode_sid demo_kernel True (Some (demo_inode 1)) (demo_state MP4_NO_ACCESS)) = MP4_TARGET_SID"
    by (auto simp: demo_bprm_def)
  let ?s = "demo_state MP4_TARGET_SID" and ?e = "Check 10 (demo_inode 2) 2 True True"
  have c: "creds ?s 10 = Some 5000" "cred_label ?s 10 = Some MP4_TARGET_SID" by (simp_all add: demo_state_def cred_label_def)
  have "\<not> path_fault demo_kernel True (demo_inode 2) 2"
    by (simp add: path_fault_def demo_kernel_def demo_inode_def demo_path_def)
  with permission_eq [OF reachable_owned [OF demo_exec] c(1), of True True "demo_inode 2" 2]
  have step: "mp4_trans demo_kernel ?s ?e ?s" by (intro mp4_trans.check) (simp_all add: c)
  have "runs (mp4_trans demo_kernel) ?s [?e] ?s" by (rule runs_one [of "mp4_trans demo_kernel", OF step])
  from target_label_lifecycle [OF demo_exec, THEN conjunct2, rule_format, OF conjI, OF this] c(2)
  have "cred_label ?s 10 = Some MP4_TARGET_SID" by simp
  then show "\<exists>t. mp4_trans demo_kernel ?s ?e t \<and> cred_label t 10 = Some MP4_TARGET_SID" using step by blast
qed

text \<open>
  C2: The exact decision of the access check for every live credential and every label, in states the
  kernel can reach, with different single access bits and with buffers for the path and the
  attribute that may or may not be allocated.  An inode without an alias is refused.  When the
  alias has a printable path, the request is granted exactly when no access bit of it counts, or
  the path buffer was allocated and: the path is a skipped one (the root or one of ten prefixes); or
  the credential has a label and either it is not the target and the inode is a directory, or
  every access bit is in the table \<open>enforced_access\<close> for this subject and the object's label.  That
  table is the documented policy for the labels no-access, read-only, read-write, directory and
  writable directory; on \<open>exec\<close> it has everything, and on \<open>write-only\<close>, \<open>target\<close> and unknown labels
  nothing.  A refusal is \<open>-EACCES\<close>, and the state is left unchanged.\<close>
theorem access_check_enforces_policy:
  assumes "runs (mp4_trans k) boot ls s" and "may_ok (bits k)" and "creds s c \<noteq> None"
  shows "(d_find_alias k i = None \<longrightarrow> mp4_inode_permission k ap ac (Some c) (Some i) m s = Inr (Some EACCES, s))
    \<and> (\<forall>de path. d_find_alias k i = Some de \<and> dentry_path_raw k de 256 = Path path \<longrightarrow>
        mp4_inode_permission k ap ac (Some c) (Some i) m s = Inr
          (if effective (bits k) m = 0
              \<or> ap \<and> (skipped_path path
                  \<or> (\<exists>ssid. cred_label s c = Some ssid
                      \<and> (ssid \<noteq> MP4_TARGET_SID \<and> is_dir i
                         \<or> within (effective (bits k) m)
                             (enforced_access (bits k) (ssid = MP4_TARGET_SID) (fst (get_inode_sid k ac (Some i) s))))))
           then None else Some EACCES, s))"
proof -
  obtain q where q: "creds s c = Some q" using assms(3) by blast
  note check = permission_eq [OF reachable_owned [OF assms(1)] q, of ap ac i m]
  have d: "decide (bits k) ssid osid dir msk =
      (if ssid \<noteq> MP4_TARGET_SID \<and> dir \<or> within msk (enforced_access (bits k) (ssid = MP4_TARGET_SID) osid)
       then None else Some EACCES)" for ssid osid dir msk
    by (simp add: decide_def has_permission_enforced [OF assms(2)])
  show ?thesis
    unfolding check
    by (cases "cred_label s c") (auto simp: path_fault_def access_result_def get_inode_sid_eq d)
qed

theorem access_check_enforces_policy_witness:
  "mp4_inode_permission demo_kernel True True (Some 10) (Some (demo_inode 2)) 2 (demo_state MP4_TARGET_SID)
     = Inr (None, demo_state MP4_TARGET_SID)
   \<and> mp4_inode_permission demo_kernel True True (Some 10) (Some (demo_inode 2)) 2 (demo_state MP4_NO_ACCESS)
     = Inr (Some EACCES, demo_state MP4_NO_ACCESS)"
proof -
  have e: "effective (bits demo_kernel) 2 = 2" by (simp add: effective_def demo_kernel_def fs_may_def)
  have l: "cred_label (demo_state f) 10 = Some f" "creds (demo_state f) 10 \<noteq> None" for f
    by (simp_all add: cred_label_def demo_state_def)
  have m: "may_ok (bits demo_kernel)" by (simp add: demo_kernel_def fs_may_ok)
  have skip: "\<not> skipped_path ''/home/target''"
    by (simp add: skipped_path_def skipped_prefixes_def cstring_id NUL_def)
  have o: "fst (get_inode_sid demo_kernel True (Some (demo_inode 2)) s) = MP4_READ_WRITE" for s
    using demo_sid(2) by (simp add: get_inode_sid_eq)
  have a: "d_find_alias demo_kernel (demo_inode 2) = Some 2" "dentry_path_raw demo_kernel 2 256 = Path ''/home/target''"
    by (simp_all add: demo_kernel_def demo_inode_def demo_path_def)
  have w: "within 2 (enforced_access (bits demo_kernel) True MP4_READ_WRITE)"
    "\<not> within 2 (enforced_access (bits demo_kernel) False MP4_READ_WRITE)"
    by (simp_all add: within_def enforced_access_def documented_access_def demo_kernel_def fs_may_def sid_defs)
  have t: "MP4_NO_ACCESS \<noteq> MP4_TARGET_SID" "\<not> is_dir (demo_inode 2)" by (simp_all add: sid_defs demo_inode_def)
  note check = access_check_enforces_policy [OF _ m l(2), THEN conjunct2, rule_format, OF _ conjI, OF _ a]
  show ?thesis
    using check [OF demo_exec, of True True 2] check [OF demo_blank, of True True 2] w t skip
    by (simp add: e l o)
qed

text \<open>
  A path is skipped exactly when it is the root directory or begins, as a string, with one of the ten
  listed names, and on a skipped path the module grants every request of every subject, the target
  program included, without looking at a label; \<open>/library\<close> is skipped because of \<open>/lib\<close>.\<close>
lemma skipped_paths_are_open:
  assumes "d_find_alias k i = Some de" and "dentry_path_raw k de 256 = Path path" and "skipped_path path"
  shows "mp4_inode_permission k True ac (Some c) (Some i) m s = Inr (None, s)"
  using assms by (simp add: mp4_inode_permission_def Let_def should_skip_eq)

text \<open>
  Freeing the label of a credential twice is caught: the first \<open>mp4_cred_free\<close> leaves the poison value
  in the security field, so a second one stops at the \<open>BUG_ON\<close> instead of freeing memory again.\<close>
lemma double_free_hits_bug_on:
  assumes "runs (mp4_trans k) boot ls s" and "cred_label s c = Some f" and "7 < PAGE_SIZE k"
  shows "\<exists>t. mp4_cred_free k (Some c) s = Inr t \<and> mp4_cred_free k (Some c) t = Inl BugOn"
proof -
  obtain p where "creds s c = Some p" "p \<noteq> 0"
    using assms(2) by (auto simp: cred_label_def split: option.splits if_splits)
  then show ?thesis
    using cred_free_eq [OF reachable_owned [OF assms(1)], of c p] assms(3)
    by (simp add: mp4_cred_free_def [of k "Some c" "_\<lparr>blobs := _\<rparr>"] deref_def)
qed

text \<open>
  C38: \<open>mp4_inode_init_security\<close> never returns success: for a target credential with all result pointers given it
  stores the name, the label \<open>dir-write\<close> or \<open>read-write\<close> and its length with the terminating NUL,
  and still returns \<open>-EOPNOTSUPP\<close>, which tells the caller to skip the attribute; every other call
  returns \<open>-EOPNOTSUPP\<close> or \<open>-ENOMEM\<close> without storing a value.\<close>
theorem new_inodes_are_never_labelled:
  assumes "mp4_inode_init_security cur dup_ok inode dir name value len s = Inr (r, x)"
  shows "r \<in> {Some EOPNOTSUPP, Some ENOMEM}
    \<and> (x_value x \<noteq> None \<longleftrightarrow> (\<exists>c i. cur = Some c \<and> cred_label s c = Some MP4_TARGET_SID \<and> inode = Some i
         \<and> dir \<noteq> None \<and> name \<and> value \<and> len))
    \<and> (\<forall>v. x_value x = Some (Some v) \<longrightarrow> r = Some EOPNOTSUPP \<and> x_name x = Some XATTR_MP4_SUFFIX
         \<and> v = (if is_dir (the inode) then ''dir-write'' else ''read-write'') \<and> x_len x = Some (length v + 1))"
  using assms
  by (auto simp: mp4_inode_init_security_def no_xattr_def cred_label_def kres_simps Let_def
      split: option.splits if_splits)

theorem new_inodes_are_never_labelled_witness:
  "\<exists>x. mp4_inode_init_security (Some 10) True (Some (demo_inode 2)) (Some (demo_inode 2)) True True True
      (demo_state MP4_TARGET_SID) = Inr (Some EOPNOTSUPP, x) \<and> x_value x = Some (Some ''read-write'')"
proof -
  have "\<exists>r x. mp4_inode_init_security (Some 10) True (Some (demo_inode 2)) (Some (demo_inode 2)) True True True
      (demo_state MP4_TARGET_SID) = Inr (r, x) \<and> x_value x = Some (Some ''read-write'')"
    by (simp add: mp4_inode_init_security_def deref_def demo_state_def demo_inode_def no_xattr_def)
  then show ?thesis using new_inodes_are_never_labelled by blast
qed

end
