(* ===== verification/Spec2Isabelle.thy ===== *)
theory Spec2Isabelle
  imports MP1_User MP2_Race MP2_Old_Correct MP3_Monitor MP4_Correct
begin

text \<open>
  Verification of four Linux kernel modules and the user programs that talk to them.

  \<^bold>\<open>The program.\<close>  The repository holds four independent loadable modules.  \<open>MP1/mp1.c\<close> keeps a list of
  registered processes; a timer queues work every five seconds that refreshes their CPU times and
  drops ended processes, and a proc file registers pids and prints the list.  \<open>MP2/mp2.c\<close> is a
  rate-monotonic scheduler: processes register with a period and a computation time, an admission
  control bounds the utilisation, each yield puts a task to sleep until its next release, timers make
  it ready, and a dispatcher thread runs the ready task with the least period.  \<open>MP3/mp3.c\<close> is a
  profiler: a delayed work samples page faults and CPU times of the registered processes into a buffer that
  a character device maps into user space, where \<open>MP3/monitor.c\<close> reads it; \<open>MP3/work.c\<close> is the
  measured program.  \<open>MP4/mp4.c\<close> is a security module with hooks for credentials and inodes that confines
  a target program by labels stored in extended attributes.  \<open>MP2/mp2_dump.c\<close> is an earlier version of
  the scheduler that is kept but not built.

  \<^bold>\<open>Shared theories.\<close>  \<open>Prelude\<close>: machine words, the faults a piece of kernel code can run into (null and
  dangling pointers, error pointers, overruns, a firing \<open>BUG_ON\<close>, a lock that is never released) and
  the result type that carries them, error codes.  \<open>KLib\<close>: C strings, \<open>%d\<close> and \<open>%lu\<close>, \<open>kstrtoint\<close>,
  with the round trip between printing and reading numbers.  \<open>KList\<close>: the intrusive lists over an explicit store, and
  the locale \<open>registry\<close>, the contract of a list of structs looked up by pid, interpreted for the
  task list of MP2 and the process list of MP3.  \<open>KTrans\<close>: labelled transition systems and the locale
  \<open>safety_system\<close>, interpreted for MP1, MP3, MP4, the older scheduler, and the steps of MP2 that other
  processes take.

  \<^bold>\<open>MP1.\<close>  \<open>MP1\<close> has the module state (record \<open>mp1\<close>) and one definition per function: \<open>mp1_myread\<close>, \<open>mp1_mywrite\<close>,
  \<open>freell\<close>, \<open>wq_callback\<close>, \<open>mp1_tm_callback\<close>, \<open>mp1_init\<close>, \<open>mp1_exit\<close>, and \<open>mp1_get_cpu_use\<close> of
  \<open>mp1_given.h\<close>.  \<open>MP1_Correct\<close> shows that they implement operations on a table of pids and times, what
  a read returns and when it overruns its buffer, and that unloading frees everything or, with work
  queued, deadlocks: \<open>destroy_workqueue\<close> runs the queued works, and they take the lock that \<open>mp1_exit\<close> holds.
  \<open>MP1_User\<close> has \<open>MP1/userapp.c\<close> and runs its \<open>main\<close> against the module: the table after any run is a fold over the
  events, and what the program prints is its own lines and that table, with its own time.

  \<^bold>\<open>MP2.\<close>  \<open>MP2_Admission\<close> models \<open>admission_control\<close> at the widths of the C code and the locale
  \<open>ledger\<close> of a utilisation account, which it implements as long as no product wraps.  \<open>MP2\<close> has the
  handlers (\<open>reg_entry\<close>, \<open>yield_entry\<close>, \<open>dereg_entry\<close>, \<open>mp2_tm_callback\<close>, \<open>dispatch_fn\<close>, loading and
  unloading) and their transition system with its invariant.  Its state has, beside the list and the
  structs, the pointer to the dispatcher thread (null, an error pointer or a thread), whether the slab cache
  exists, and the kernel tasks that have been freed because their process ended; every use of these pointers
  is a dereference that can fault.  \<open>MP2_Correct\<close> has the properties: the
  dispatcher implements the rate-monotonic policy, no handler faults while only living processes
  register and none ends while registered, and what faults when one does; the admission books balance and
  stay within the Liu and Layland bound, releases do not drift, no
  wake-up is lost, registering and deregistering is a round trip, unloading releases everything, and
  the inputs on which the code fails.  \<open>MP2_Proc\<close> adds the proc file and the requests of \<open>MP2/userapp.c\<close>: what it
  prints is parsed to what it printed, and its check of the list it reads is right.  \<open>MP2_Session\<close> has the rest of that
  program and runs its \<open>main\<close> against the module, with an arbitrary environment of other processes, timers and
  dispatcher turns between its calls.  A yield blocks: after \<open>schedule()\<close> with the task state set to sleeping the program
  goes on only when the log of kernel calls says that the dispatcher has woken it, and otherwise the run is
  asleep.  The run never faults; it does its jobs and leaves nothing behind, or sleeps with its wake-up still
  to come; and alone on the machine it ends, unless its period is one the dispatcher never chooses.
  \<open>MP2_Race\<close> splits a turn of the dispatcher where it can be preempted and shows exactly when the second half
  reads freed memory.  \<open>MP2_Old\<close> models \<open>mp2_dump.c\<close> on its own state, one definition per function, and
  \<open>MP2_Old_Correct\<close> relates it to \<open>mp2.c\<close> by the function \<open>forget\<close>: one equation per operation, on what the
  versions agree and in what they differ, the typing of the numeric task states, and the wrong conversion of the
  period.

  \<^bold>\<open>MP3.\<close>  \<open>MP3\<close> has the module state (record \<open>mp3\<close>: list, structs, process counters, buffer, position, lock, work,
  alerts) and one definition per function of \<open>mp3.c\<close> and \<open>mp3_given.h\<close>.  The work is split where another
  handler can come between: \<open>workqueue_enter\<close> before it takes the lock, \<open>workqueue_body\<close> after.
  \<open>MP3_Correct\<close> shows the invariant, what one sample stores, that samples add up to what the processes
  did, registration round trips, and the lock-ups, the overflow and the stale counters.
  \<open>MP3_User\<close> has the mapping loop, the requests, the memory accesses of the work program and the
  pointers of \<open>MP3/test.c\<close>.  \<open>MP3_Monitor\<close> has the monitor, whose loops terminate because every element read is
  marked, from the file name it announces to the closing of the device, and the end-to-end property that it
  prints the values of each stored sample once and in order.

  \<^bold>\<open>MP4.\<close>  \<open>MP4_Policy\<close> has labels, label strings, skipped paths and the decision function, compared label
  by label with the accesses the comments of \<open>mp4_given.h\<close> document.  \<open>MP4\<close> has the hooks over a
  store of credentials and labels, with counted references and buffers.  \<open>MP4_Correct\<close> shows the life cycle
  of the labels (each owned by one live credential, none leaked, freed twice or used after free), how the
  target label is gained and kept, the one case in which a hook faults (a path that does not fit its buffer),
  and the exact decision of the access hook for every label, which is the documented policy for five of them.

  \<^bold>\<open>Bounds and fuel.\<close>  No definition uses fuel: the loops are structural recursions over the lists they
  traverse or functions with a measure (the distance to the end of a buffer or of the page range, the number of
  unread elements, the jobs left), but for the inner loop of \<open>workfunc\<close> in \<open>MP1/userapp.c\<close>, a partial function
  that is shown to return.  The loop that polls the clock ends when the clock does what it waits for.  Counters
  that the source keeps in machine words are words; lengths and positions inside buffers are
  numbers checked against the size of the buffer.  The data model is LP64.

  \<^bold>\<open>What is not modelled.\<close>  The kernel and the C library are parameters of the definitions where their
  results matter (clock, allocator, creation of threads and proc files, process and page tables, directory
  entries, attributes, random numbers); \<open>printk\<close> is left out except for the alerts of MP3.  Copies between user and kernel space
  succeed.  Handlers are atomic up to the points named above; in MP2 the locks expand to nothing in the
  source, and the dispatcher is also modelled in two halves.  The \<open>double\<close> with which \<open>MP2/userapp.c\<close> measures its
  computation is a real number, and the time stamps it prints are left out; the shell and \<open>cat\<close> that
  \<open>MP1/userapp.c\<close> runs are parameters.  Shell scripts, measurements and notebooks are left out.
\<close>

end
